theory Spec2Isabelle
  imports Complex_Main "HOL-Library.Sublist"
begin

section \<open>JavaScript strings and arrays\<close>

text \<open>
  Strings are character lists. \<open>includes_js s t\<close> is \<^verbatim>\<open>s.includes(t)\<close>,
  \<open>startsWith_js s t\<close> is \<^verbatim>\<open>s.startsWith(t)\<close>, \<open>split_js c s\<close> is
  \<^verbatim>\<open>s.split(c)\<close> for a one-character separator, and \<open>nth_js xs i\<close> is the array
  read \<^verbatim>\<open>xs[i]\<close>, which yields \<^verbatim>\<open>undefined\<close> (here \<open>None\<close>) out of range.
\<close>

fun startsWith_js :: "string \<Rightarrow> string \<Rightarrow> bool" where
  "startsWith_js s [] = True"
| "startsWith_js [] (c # t) = False"
| "startsWith_js (d # s) (c # t) = (d = c \<and> startsWith_js s t)"

fun includes_js :: "string \<Rightarrow> string \<Rightarrow> bool" where
  "includes_js [] t = (t = [])"
| "includes_js (d # s) t = (startsWith_js (d # s) t \<or> includes_js s t)"

fun split_js :: "char \<Rightarrow> string \<Rightarrow> string list" where
  "split_js c [] = [[]]"
| "split_js c (x # xs) =
     (if x = c then [] # split_js c xs
      else (case split_js c xs of [] \<Rightarrow> [[x]] | p # ps \<Rightarrow> (x # p) # ps))"

definition nth_js :: "'a list \<Rightarrow> int \<Rightarrow> 'a option" where
  "nth_js xs i = (if 0 \<le> i \<and> i < int (length xs) then Some (xs ! nat i) else None)"

definition lower_char :: "char \<Rightarrow> char" where
  "lower_char c =
     (if 65 \<le> (of_char c :: nat) \<and> (of_char c :: nat) \<le> 90
      then char_of ((of_char c :: nat) + 32) else c)"

definition toLowerCase :: "string \<Rightarrow> string" where
  "toLowerCase s = map lower_char s"

fun digit_char :: "nat \<Rightarrow> char" where
  "digit_char n = char_of (48 + n)"

fun show_nat :: "nat \<Rightarrow> string" where
  "show_nat n = (if n < 10 then [digit_char n] else show_nat (n div 10) @ [digit_char (n mod 10)])"

declare show_nat.simps [simp del]

section \<open>Errors, blobs, files and the platform\<close>

text \<open>A thrown \<^verbatim>\<open>Error\<close> carries its message.\<close>

datatype error = Error (message: string)

record blob =
  blob_type :: string
  blob_data :: string

record jsfile =
  file_name :: string
  file_type :: string
  file_data :: string

text \<open>The \<^verbatim>\<open>URL\<close> object, of which the code reads \<^verbatim>\<open>pathname\<close> only.\<close>

datatype url_obj = URL (pathname: string)

text \<open>
  What \<^verbatim>\<open>fetch\<close> gives: a rejection (network or CORS failure), or a response with
  its status line and a body whose \<^verbatim>\<open>blob()\<close> resolves or rejects.
\<close>

datatype fetch_result =
    NetworkError string
  | HttpResponse (status: nat) (statusText: string) (resp_body: "error + blob")

definition ok :: "nat \<Rightarrow> bool" where
  "ok st = (200 \<le> st \<and> st \<le> 299)"

text \<open>The messages of the extension's own channel.\<close>

datatype message =
    GET_PENDING_IMAGE
  | FETCH_IMAGE string
  | CHECK_COMPLETE bool
  | CHECK_ERROR string

text \<open>
  The browser platform the extension runs on, which is not code of the repository:
  the URL parser (\<open>None\<close> where \<^verbatim>\<open>new URL\<close> throws), \<^verbatim>\<open>fetch\<close> in the
  service worker and in the page, \<^verbatim>\<open>FileReader.readAsDataURL\<close> (\<open>None\<close> where
  \<^verbatim>\<open>onerror\<close> fires) and \<^verbatim>\<open>chrome.runtime.lastError\<close> as seen by the callback of
  \<^verbatim>\<open>sendMessage\<close>.
\<close>

record platform =
  parseURL :: "string \<Rightarrow> url_obj option"
  bg_fetch :: "string \<Rightarrow> fetch_result"
  page_fetch :: "string \<Rightarrow> fetch_result"
  readAsDataURL :: "blob \<Rightarrow> string option"
  lastError :: "message \<Rightarrow> string option"

section \<open>content.js: getFileNameFromUrl\<close>

definition default_name :: string where
  "default_name = ''image.png''"

definition getFileNameFromUrl :: "platform \<Rightarrow> string \<Rightarrow> string" where
  "getFileNameFromUrl pf url =
     (case parseURL pf url of
        None \<Rightarrow> default_name
      | Some urlObj \<Rightarrow>
          (let parts = split_js (CHR ''/'') (pathname urlObj);
               lastPart = nth_js parts (int (length parts) - 1)
           in case lastPart of
                None \<Rightarrow> default_name
              | Some lp \<Rightarrow> if lp \<noteq> [] \<and> includes_js lp ''.'' then lp else default_name))"

text \<open>
  The first lines of \<^verbatim>\<open>uploadImageToGemini\<close>: the file built from the blob, with
  \<^verbatim>\<open>getFileNameFromUrl(originalUrl) || "image.png"\<close> and
  \<^verbatim>\<open>imageBlob.type || "image/png"\<close>.
\<close>

definition make_file :: "platform \<Rightarrow> blob \<Rightarrow> string \<Rightarrow> jsfile" where
  "make_file pf imageBlob originalUrl =
     (let n = getFileNameFromUrl pf originalUrl;
          fileName = (if n \<noteq> [] then n else ''image.png'');
          mimeType = (if blob_type imageBlob \<noteq> [] then blob_type imageBlob else ''image/png'')
      in \<lparr>file_name = fileName, file_type = mimeType, file_data = blob_data imageBlob\<rparr>)"

text \<open>
  The specification's wording of the result: the last path segment is what follows the
  last \<^verbatim>\<open>/\<close> of the path.
\<close>

definition last_segment :: "string \<Rightarrow> string" where
  "last_segment p = rev (takeWhile (\<lambda>c. c \<noteq> CHR ''/'') (rev p))"

section \<open>background.js\<close>

record pendingCheck =
  imageUrl :: string
  timestamp :: int
  sourceTabId :: nat

text \<open>\<^verbatim>\<open>chrome.storage.local\<close>, a store of records by key.\<close>

type_synonym storage = "string \<Rightarrow> pendingCheck option"

definition pending_key :: string where
  "pending_key = ''pendingImageCheck''"

text \<open>The reply to \<^verbatim>\<open>FETCH_IMAGE\<close>: \<^verbatim>\<open>{success: true, dataUrl}\<close> or
  \<^verbatim>\<open>{success: false, error}\<close>.\<close>

datatype fetch_reply = FetchOk string | FetchFail string

datatype response =
    PendingReply "pendingCheck option"
  | FetchReply fetch_reply
  | NoReply

definition isValidWebUrl :: "string \<Rightarrow> bool" where
  "isValidWebUrl url =
     (if url = [] then False
      else if startsWith_js url ''data:'' then False
      else if startsWith_js url ''file://'' then False
      else if startsWith_js url ''blob:'' then False
      else startsWith_js url ''http://'' \<or> startsWith_js url ''https://'')"

text \<open>
  The context-menu handler, as far as the store goes: \<open>srcUrl\<close> is \<open>None\<close> where
  \<^verbatim>\<open>info.srcUrl\<close> is undefined, \<open>t\<close> is \<^verbatim>\<open>Date.now()\<close>.
\<close>

definition onClicked :: "string option \<Rightarrow> nat \<Rightarrow> int \<Rightarrow> storage \<Rightarrow> storage" where
  "onClicked srcUrl tabId t st =
     (case srcUrl of
        None \<Rightarrow> st
      | Some u \<Rightarrow>
          if u = [] then st
          else if \<not> isValidWebUrl u then st
          else st(pending_key \<mapsto> \<lparr>imageUrl = u, timestamp = t, sourceTabId = tabId\<rparr>))"

definition fetchImageAsDataUrl :: "platform \<Rightarrow> string \<Rightarrow> error + string" where
  "fetchImageAsDataUrl pf url =
     (case bg_fetch pf url of
        NetworkError m \<Rightarrow> Inl (Error m)
      | HttpResponse st txt bd \<Rightarrow>
          if \<not> ok st then Inl (Error (''HTTP '' @ show_nat st @ '': '' @ txt))
          else (case bd of
                  Inl e \<Rightarrow> Inl e
                | Inr b \<Rightarrow>
                    (case readAsDataURL pf b of
                       None \<Rightarrow> Inl (Error ''Failed to read image data'')
                     | Some d \<Rightarrow> Inr d)))"

text \<open>
  The \<^verbatim>\<open>onMessage\<close> listener for a message that is handled alone: the response
  sent and the store once every operation the handling has issued is served, no other
  message arriving in between. This is what a content script that is the only one to ask
  gets; the handling of \<^verbatim>\<open>GET_PENDING_IMAGE\<close> step by step, for messages that
  overlap, is \<open>worker_step\<close> below.
\<close>

fun onMessage :: "platform \<Rightarrow> message \<Rightarrow> storage \<Rightarrow> response \<times> storage" where
  "onMessage pf GET_PENDING_IMAGE st =
     (let result = st pending_key
      in (PendingReply result,
          if result \<noteq> None then st(pending_key := None) else st))"
| "onMessage pf (FETCH_IMAGE url) st =
     (case fetchImageAsDataUrl pf url of
        Inr dataUrl \<Rightarrow> (FetchReply (FetchOk dataUrl), st)
      | Inl e \<Rightarrow> (FetchReply (FetchFail (message e)), st))"
| "onMessage pf (CHECK_COMPLETE success) st = (NoReply, st)"
| "onMessage pf (CHECK_ERROR err) st = (NoReply, st)"

text \<open>A sequence of messages handled one after the other, each to its end before the next
  arrives: the responses, in order.\<close>

fun serve :: "platform \<Rightarrow> message list \<Rightarrow> storage \<Rightarrow> response list" where
  "serve pf [] st = []"
| "serve pf (m # ms) st = (case onMessage pf m st of (r, st') \<Rightarrow> r # serve pf ms st')"

fun observed :: "response \<Rightarrow> bool" where
  "observed (PendingReply (Some p)) = True"
| "observed r = False"

text \<open>
  The handling of \<^verbatim>\<open>GET_PENDING_IMAGE\<close> step by step (lines 110 to 121). The
  listener only issues \<^verbatim>\<open>chrome.storage.local.get\<close> and returns. When the storage
  area serves that read, its callback sends the response and, where it has found a record,
  issues \<^verbatim>\<open>chrome.storage.local.remove\<close>, which takes effect when it is served in
  its turn. The storage area serves the operations in the order in which they were issued.
  A request is known by a number; \<open>responses\<close> lists the responses sent, oldest first.
\<close>

datatype storage_op = GetPending nat | RemovePending

record worker =
  held :: storage
  issued :: "storage_op list"
  responses :: "(nat \<times> pendingCheck option) list"

datatype worker_event = Arrives nat | Serves

fun worker_step :: "worker_event \<Rightarrow> worker \<Rightarrow> worker" where
  "worker_step (Arrives i) k = k\<lparr>issued := issued k @ [GetPending i]\<rparr>"
| "worker_step Serves k =
     (case issued k of
        [] \<Rightarrow> k
      | GetPending i # ops \<Rightarrow>
          (let result = held k pending_key
           in k\<lparr>issued := (if result \<noteq> None then ops @ [RemovePending] else ops),
                 responses := responses k @ [(i, result)]\<rparr>)
      | RemovePending # ops \<Rightarrow> k\<lparr>held := (held k)(pending_key := None), issued := ops\<rparr>)"

definition schedule :: "worker_event list \<Rightarrow> worker \<Rightarrow> worker" where
  "schedule evs k = fold worker_step evs k"

definition idle :: "storage \<Rightarrow> worker" where
  "idle st = \<lparr>held = st, issued = [], responses = []\<rparr>"

section \<open>The page: DOM snapshots, the host and the run state\<close>

text \<open>
  A node is known by its reference. Of a node the code reads its bounding box, its markup
  and text, its \<^verbatim>\<open>aria-label\<close>, its \<^verbatim>\<open>offsetHeight\<close> and the number of its
  children; \<open>selectors\<close> lists the CSS selectors the node matches (the selector engine
  is the browser's) and \<open>ancestors\<close> the references of the nodes that contain it.
\<close>

record rect =
  rect_width :: real
  rect_height :: real
  rect_top :: real
  rect_bottom :: real
  rect_right :: real

record element =
  selectors :: "string list"
  ancestors :: "nat list"
  box :: rect
  innerHTML :: string
  textContent :: string
  ariaLabel :: "string option"
  offsetHeight :: int
  childCount :: nat

record dom =
  readyState :: string
  node :: "nat \<Rightarrow> element"
  doc :: "nat list"
  body :: nat
  innerWidth :: real
  innerHeight :: real
  href :: string

definition querySelectorAll :: "dom \<Rightarrow> string \<Rightarrow> nat list" where
  "querySelectorAll d sel = filter (\<lambda>r. sel \<in> set (selectors (node d r))) (doc d)"

definition querySelector :: "dom \<Rightarrow> string \<Rightarrow> nat option" where
  "querySelector d sel = (case querySelectorAll d sel of [] \<Rightarrow> None | r # rs \<Rightarrow> Some r)"

text \<open>\<^verbatim>\<open>root.querySelectorAll(sel)\<close>: the matching descendants of \<open>anc\<close>.\<close>

definition querySelectorAll_in :: "dom \<Rightarrow> nat \<Rightarrow> string \<Rightarrow> nat list" where
  "querySelectorAll_in d anc sel =
     filter (\<lambda>r. anc \<in> set (ancestors (node d r))) (querySelectorAll d sel)"

text \<open>
  \<^verbatim>\<open>String.prototype.trim\<close> strips white space and line terminators. A character is
  here a code unit below 256, and of those these are the tab, the line feed, the vertical
  tab, the form feed, the carriage return, the space and the no-break space (U+00A0).
\<close>

definition is_space :: "char \<Rightarrow> bool" where
  "is_space c = ((of_char c :: nat) \<in> {9, 10, 11, 12, 13, 32, 160})"

definition trim_js :: "string \<Rightarrow> string" where
  "trim_js s = rev (dropWhile is_space (rev (dropWhile is_space s)))"

datatype overlay =
    Working string string
  | Complete
  | ManualSend
  | ErrorOverlay string

datatype event =
    ChangeEvent
  | InputEvent
  | InsertTextInput char
  | KeyDown string
  | PasteEvent jsfile
  | DragEnter jsfile
  | DragOver jsfile
  | DropEvent jsfile
  | MouseClick

datatype logarg = Str string | Num int | Refs "nat list" | Flag bool

text \<open>
  What a run does to its surroundings, in order. \<open>Log\<close> holds the console lines that
  report an outcome (the other lines of the source are left out); \<open>Delay\<close> is
  \<^verbatim>\<open>await delay(ms)\<close>; \<open>AwaitLoad\<close> the wait for the load event; \<open>Show\<close> and
  \<open>RemoveAllOverlays\<close> are the extension's own overlays (with their style sheet);
  \<open>Focus\<close>, \<open>Click\<close>, \<open>SetFiles\<close>, \<open>ExecInsertText\<close> and \<open>Dispatch\<close> act on the
  page; \<open>SendMessage\<close> is \<^verbatim>\<open>chrome.runtime.sendMessage\<close> and \<open>Fetch\<close> a call of
  \<^verbatim>\<open>fetch\<close> in the page.
\<close>

datatype effect =
    Log string "logarg list"
  | Delay int
  | AwaitLoad
  | RemoveAllOverlays
  | Show overlay
  | Focus nat
  | Click nat
  | SetFiles nat jsfile
  | ExecInsertText char
  | Dispatch nat event
  | SendMessage message
  | Fetch string

text \<open>
  The host page is not under the extension's control: it is any state machine that shows a
  DOM (\<open>view\<close>) and moves on every effect (\<open>react\<close>), a delay included.
  \<open>takes\<close> is the time in ms that an effect takes beyond what it asks for (a reply
  awaited, a timer that fires late), and \<open>load_after\<close> the time until the load event.
\<close>

record 'w host =
  view :: "'w \<Rightarrow> dom"
  react :: "effect \<Rightarrow> 'w \<Rightarrow> 'w"
  takes :: "effect \<Rightarrow> 'w \<Rightarrow> nat"
  load_after :: "'w \<Rightarrow> int"

text \<open>
  The state of a run: the page's state, the clock (\<^verbatim>\<open>Date.now()\<close>, in ms), the
  effects so far and the service worker's store. The clock moves with the effects: by
  what each takes, and a delay by its duration besides.
\<close>

record 'w run =
  world :: 'w
  now :: int
  trace :: "effect list"
  store :: storage

definition page :: "'w host \<Rightarrow> 'w run \<Rightarrow> dom" where
  "page h s = view h (world s)"

definition console_log :: "string \<Rightarrow> logarg list \<Rightarrow> 'w run \<Rightarrow> 'w run" where
  "console_log m as s = s\<lparr>trace := trace s @ [Log m as]\<rparr>"

definition perform :: "'w host \<Rightarrow> effect \<Rightarrow> 'w run \<Rightarrow> 'w run" where
  "perform h e s =
     s\<lparr>world := react h e (world s), now := now s + int (takes h e (world s)),
       trace := trace s @ [e]\<rparr>"

definition delay :: "'w host \<Rightarrow> int \<Rightarrow> 'w run \<Rightarrow> 'w run" where
  "delay h ms s = (perform h (Delay ms) s)\<lparr>now := now (perform h (Delay ms) s) + ms\<rparr>"

definition awaitLoad :: "'w host \<Rightarrow> 'w run \<Rightarrow> 'w run" where
  "awaitLoad h s =
     (perform h AwaitLoad s)
       \<lparr>now := now (perform h AwaitLoad s) + min 2000 (max 0 (load_after h (world s)))\<rparr>"

text \<open>The effects of a run since an earlier state of it.\<close>

definition since :: "'w run \<Rightarrow> 'w run \<Rightarrow> effect list" where
  "since s s' = drop (length (trace s)) (trace s')"

section \<open>content.js: the overlays\<close>

definition removeAllOverlays :: "'w host \<Rightarrow> 'w run \<Rightarrow> 'w run" where
  "removeAllOverlays h s = perform h RemoveAllOverlays s"

definition showOverlay :: "'w host \<Rightarrow> overlay \<Rightarrow> 'w run \<Rightarrow> 'w run" where
  "showOverlay h k s = perform h (Show k) (removeAllOverlays h s)"

definition showTypingOverlay :: "'w host \<Rightarrow> 'w run \<Rightarrow> 'w run" where
  "showTypingOverlay h s =
     showOverlay h (Working ''Getting ready...'' ''Preparing to check your image'') s"

definition showUploadingOverlay :: "'w host \<Rightarrow> 'w run \<Rightarrow> 'w run" where
  "showUploadingOverlay h s =
     showOverlay h (Working ''Uploading your image...'' ''This might take a few seconds'') s"

definition showSendingOverlay :: "'w host \<Rightarrow> 'w run \<Rightarrow> 'w run" where
  "showSendingOverlay h s =
     showOverlay h (Working ''Starting the check...'' ''Sending to Google AI'') s"

definition hideTypingOverlay :: "'w host \<Rightarrow> 'w run \<Rightarrow> 'w run" where
  "hideTypingOverlay h s = s"

definition hideUploadingOverlay :: "'w host \<Rightarrow> 'w run \<Rightarrow> 'w run" where
  "hideUploadingOverlay h s = s"

definition hideSendingOverlay :: "'w host \<Rightarrow> 'w run \<Rightarrow> 'w run" where
  "hideSendingOverlay h s = removeAllOverlays h s"

definition showLoadingOverlay :: "'w host \<Rightarrow> 'w run \<Rightarrow> 'w run" where
  "showLoadingOverlay h s = showTypingOverlay h s"

definition hideLoadingOverlay :: "'w host \<Rightarrow> 'w run \<Rightarrow> 'w run" where
  "hideLoadingOverlay h s = removeAllOverlays h s"

definition showCompletionAnimation :: "'w host \<Rightarrow> 'w run \<Rightarrow> 'w run" where
  "showCompletionAnimation h s = showOverlay h Complete s"

definition showManualSendPrompt :: "'w host \<Rightarrow> 'w run \<Rightarrow> 'w run" where
  "showManualSendPrompt h s = showOverlay h ManualSend s"

definition showErrorMessage :: "'w host \<Rightarrow> string \<Rightarrow> 'w run \<Rightarrow> 'w run" where
  "showErrorMessage h m s = showOverlay h (ErrorOverlay m) s"

section \<open>content.js: findInputArea and waitForGeminiReady\<close>

definition MAX_WAIT_TIME :: int where
  "MAX_WAIT_TIME = 30000"

definition POLL_INTERVAL :: int where
  "POLL_INTERVAL = 500"

definition inputSelectors :: "string list" where
  \<open>inputSelectors =
     [''rich-textarea [contenteditable="true"]'',
      ''rich-textarea'',
      ''.ql-editor[contenteditable="true"]'',
      ''div[contenteditable="true"][aria-label]'',
      ''[data-placeholder*="Ask"]'',
      ''.input-area [contenteditable="true"]'',
      ''div[contenteditable="true"]'']\<close>

fun first_match :: "dom \<Rightarrow> string list \<Rightarrow> nat option" where
  "first_match d [] = None"
| "first_match d (sel # sels) =
     (case querySelector d sel of Some r \<Rightarrow> Some r | None \<Rightarrow> first_match d sels)"

definition findInputArea :: "dom \<Rightarrow> nat option" where
  "findInputArea d = first_match d inputSelectors"

definition editable_selector :: string where
  \<open>editable_selector = ''[contenteditable="true"]''\<close>

text \<open>The size test of the scan: \<^verbatim>\<open>rect.width > 100 && rect.height > 20\<close>.\<close>

definition suitable :: "element \<Rightarrow> bool" where
  "suitable el = (rect_width (box el) > 100 \<and> rect_height (box el) > 20)"

text \<open>
  One round of the loop of \<^verbatim>\<open>waitForGeminiReady\<close> on a snapshot: the scan of the
  editable nodes, then \<^verbatim>\<open>findInputArea\<close>.
\<close>

definition poll_once :: "dom \<Rightarrow> nat option" where
  "poll_once d =
     (let allEditable = querySelectorAll d editable_selector
      in case (if allEditable \<noteq> [] then find (\<lambda>r. suitable (node d r)) allEditable else None) of
           Some el \<Rightarrow> Some el
         | None \<Rightarrow>
             (case findInputArea d of Some inputArea \<Rightarrow> Some inputArea | None \<Rightarrow> None))"

definition timeout_message :: string where
  "timeout_message = ''Gemini took too long to load. Please refresh and try again.''"

definition timeout_diagnostics :: "dom \<Rightarrow> effect list" where
  "timeout_diagnostics d =
     [Log ''TIMEOUT - Debug info:'' [],
      Log ''- URL:'' [Str (href d)],
      Log ''- contenteditable elements:'' [Refs (querySelectorAll d ''[contenteditable]'')],
      Log ''- body innerHTML length:'' [Num (int (length (innerHTML (node d (body d)))))]]"

function poll_loop :: "'w host \<Rightarrow> int \<Rightarrow> 'w run \<Rightarrow> (error + nat) \<times> 'w run" where
  "poll_loop h startTime s =
     (if now s - startTime < MAX_WAIT_TIME then
        (case poll_once (page h s) of
           Some el \<Rightarrow> (Inr el, s)
         | None \<Rightarrow> poll_loop h startTime (delay h POLL_INTERVAL s))
      else (Inl (Error timeout_message),
            s\<lparr>trace := trace s @ timeout_diagnostics (page h s)\<rparr>))"
  by pat_completeness auto
termination
  by (relation "measure (\<lambda>(h, startTime, s). nat (MAX_WAIT_TIME - (now s - startTime)))")
     (auto simp: delay_def perform_def POLL_INTERVAL_def)

declare poll_loop.simps [simp del]

text \<open>The waits of \<^verbatim>\<open>waitForGeminiReady\<close> before its loop.\<close>

definition awaitDocument :: "'w host \<Rightarrow> 'w run \<Rightarrow> 'w run" where
  "awaitDocument h s =
     delay h 2000 (if readyState (page h s) \<noteq> ''complete'' then awaitLoad h s else s)"

definition waitForGeminiReady :: "'w host \<Rightarrow> 'w run \<Rightarrow> (error + nat) \<times> 'w run" where
  "waitForGeminiReady h s =
     (let startTime = now s
      in poll_loop h startTime (awaitDocument h s))"

section \<open>content.js: typing the query\<close>

text \<open>\<^verbatim>\<open>simulateTyping\<close>: the loop over the characters, after the focus.\<close>

fun type_chars :: "'w host \<Rightarrow> nat \<Rightarrow> string \<Rightarrow> 'w run \<Rightarrow> 'w run" where
  "type_chars h el [] s = s"
| "type_chars h el (c # cs) s =
     type_chars h el cs
       (delay h 50 (perform h (Dispatch el (InsertTextInput c)) (perform h (ExecInsertText c) s)))"

definition simulateTyping :: "'w host \<Rightarrow> nat \<Rightarrow> string \<Rightarrow> 'w run \<Rightarrow> 'w run" where
  "simulateTyping h el text s = type_chars h el text (perform h (Focus el) s)"

definition pressTab :: "'w host \<Rightarrow> nat \<Rightarrow> 'w run \<Rightarrow> 'w run" where
  "pressTab h el s = perform h (Dispatch el (KeyDown ''Tab'')) s"

definition checkForSynthIdTag :: "element \<Rightarrow> bool" where
  "checkForSynthIdTag inputArea =
     (let html = innerHTML inputArea;
          text = textContent inputArea
      in if includes_js text ''@SynthID'' then True
         else if includes_js html ''chip'' \<or> includes_js html ''mention''
                 \<or> includes_js html ''data-'' then True
         else False)"

definition dropdown_selector :: string where
  \<open>dropdown_selector = ''[role="listbox"]:not(:empty), [role="menu"]:not(:empty)''\<close>

text \<open>One round of the loop of \<^verbatim>\<open>waitForDropdown\<close> on a snapshot.\<close>

definition dropdown_detected :: "dom \<Rightarrow> bool" where
  "dropdown_detected d =
     (if (case querySelector d ''.cdk-overlay-container'' of
            None \<Rightarrow> False
          | Some cdkOverlay \<Rightarrow>
              childCount (node d cdkOverlay) > 0 \<and>
              find (\<lambda>pane. offsetHeight (node d pane) > 0
                            \<and> length (trim_js (textContent (node d pane))) > 0)
                   (querySelectorAll_in d cdkOverlay ''.cdk-overlay-pane'') \<noteq> None)
      then True
      else querySelector d dropdown_selector \<noteq> None)"

function dropdown_loop :: "'w host \<Rightarrow> int \<Rightarrow> int \<Rightarrow> 'w run \<Rightarrow> bool \<times> 'w run" where
  "dropdown_loop h maxWait startTime s =
     (if now s - startTime < maxWait then
        (if dropdown_detected (page h s) then (True, s)
         else dropdown_loop h maxWait startTime (delay h 100 s))
      else (False, console_log ''Dropdown wait timed out, proceeding anyway'' [] s))"
  by pat_completeness auto
termination
  by (relation "measure (\<lambda>(h, maxWait, startTime, s). nat (maxWait - (now s - startTime)))")
     (auto simp: delay_def perform_def)

declare dropdown_loop.simps [simp del]

definition waitForDropdown :: "'w host \<Rightarrow> int \<Rightarrow> 'w run \<Rightarrow> bool \<times> 'w run" where
  "waitForDropdown h maxWait s = dropdown_loop h maxWait (now s) s"

definition no_input_message :: string where
  "no_input_message = ''Could not find Gemini's chat input.''"

text \<open>
  \<^verbatim>\<open>typeSynthIDQuery\<close>, steps 1 to 6 up to the settle after the first Tab: focus, the
  trigger, the wait for the dropdown, the filter, the second wait, Tab.
\<close>

definition mention_entry :: "'w host \<Rightarrow> nat \<Rightarrow> 'w run \<Rightarrow> 'w run" where
  "mention_entry h el s =
     (let s1 = delay h 300 (perform h (Click el) (perform h (Focus el) s));
          s2 = simulateTyping h el ''@'' s1;
          s3 = snd (waitForDropdown h 3000 s2);
          s4 = simulateTyping h el ''synthid'' s3;
          s5 = snd (waitForDropdown h 3000 (delay h 300 s4))
      in delay h 300 (pressTab h el s5))"

text \<open>The check of the first Tab and the retry, \<^verbatim>\<open>if (!hasTag) { ... }\<close>.\<close>

definition mention_retry :: "'w host \<Rightarrow> nat \<Rightarrow> 'w run \<Rightarrow> 'w run" where
  "mention_retry h el s =
     (let hasTag = checkForSynthIdTag (node (page h s) el)
      in if \<not> hasTag then
           (let s1 = console_log ''Tab didn't work, retrying...'' [] s;
                s2 = delay h 300 (pressTab h el (delay h 300 s1));
                hasTag' = checkForSynthIdTag (node (page h s2) el)
            in console_log ''Retry result:'' [Flag hasTag'] s2)
         else s)"

text \<open>Step 7 types the question; with it the function ends.\<close>

definition question :: string where
  "question = '' is this image real?''"

definition typeSynthIDQuery :: "'w host \<Rightarrow> nat option \<Rightarrow> 'w run \<Rightarrow> (error + unit) \<times> 'w run" where
  "typeSynthIDQuery h inputArea s =
     (case (case inputArea of Some el \<Rightarrow> Some el | None \<Rightarrow> findInputArea (page h s)) of
        None \<Rightarrow> (Inl (Error no_input_message), s)
      | Some el \<Rightarrow>
          (Inr (), simulateTyping h el question (mention_retry h el (mention_entry h el s))))"

section \<open>content.js: fetchImage\<close>

definition fetchImageViaBackground ::
    "'w host \<Rightarrow> platform \<Rightarrow> string \<Rightarrow> 'w run \<Rightarrow> fetch_reply option \<times> 'w run" where
  "fetchImageViaBackground h pf url s =
     (let s1 = perform h (SendMessage (FETCH_IMAGE url)) s
      in case lastError pf (FETCH_IMAGE url) of
           Some m \<Rightarrow> (Some (FetchFail m), console_log ''Background message error:'' [Str m] s1)
         | None \<Rightarrow>
             (case onMessage pf (FETCH_IMAGE url) (store s1) of
                (FetchReply r, st) \<Rightarrow> (Some r, s1\<lparr>store := st\<rparr>)
              | (other, st) \<Rightarrow> (None, s1\<lparr>store := st\<rparr>)))"

text \<open>
  The first \<^verbatim>\<open>try\<close> of \<^verbatim>\<open>fetchImage\<close>: the blob it returns, or \<open>None\<close> where it
  falls through to the second.
\<close>

definition backgroundAttempt ::
    "'w host \<Rightarrow> platform \<Rightarrow> string \<Rightarrow> 'w run \<Rightarrow> blob option \<times> 'w run" where
  "backgroundAttempt h pf url s =
     (case fetchImageViaBackground h pf url s of
        (Some (FetchOk dataUrl), s1) \<Rightarrow>
          (let s2 = perform h (Fetch dataUrl) s1
           in case page_fetch pf dataUrl of
                NetworkError m \<Rightarrow> (None, console_log ''Background fetch error:'' [Str m] s2)
              | HttpResponse st txt bd \<Rightarrow>
                  (case bd of
                     Inr b \<Rightarrow> (Some b, s2)
                   | Inl e \<Rightarrow>
                       (None, console_log ''Background fetch error:'' [Str (message e)] s2)))
      | (Some (FetchFail m), s1) \<Rightarrow> (None, console_log ''Background fetch failed:'' [Str m] s1)
      | (None, s1) \<Rightarrow> (None, console_log ''Background fetch failed:'' [] s1))"

text \<open>The second \<^verbatim>\<open>try\<close>: the direct fetch from the page.\<close>

definition directAttempt ::
    "'w host \<Rightarrow> platform \<Rightarrow> string \<Rightarrow> 'w run \<Rightarrow> blob option \<times> 'w run" where
  "directAttempt h pf url s =
     (let s1 = perform h (Fetch url) s
      in case page_fetch pf url of
           NetworkError m \<Rightarrow> (None, console_log ''Direct fetch error:'' [Str m] s1)
         | HttpResponse st txt bd \<Rightarrow>
             if \<not> ok st then
               (None,
                console_log ''Direct fetch error:''
                  [Str (''Failed to fetch image: '' @ show_nat st)]
                  (console_log ''Direct fetch failed with status:'' [Num (int st)] s1))
             else
               (case bd of
                  Inr b \<Rightarrow> (Some b, s1)
                | Inl e \<Rightarrow> (None, console_log ''Direct fetch error:'' [Str (message e)] s1)))"

definition download_message :: string where
  "download_message =
     ''Could not download this image. It may be protected. Try saving the image first, then uploading manually to Gemini.''"

definition fetchImage ::
    "'w host \<Rightarrow> platform \<Rightarrow> string \<Rightarrow> 'w run \<Rightarrow> (error + blob) \<times> 'w run" where
  "fetchImage h pf url s =
     (case backgroundAttempt h pf url s of
        (Some b, s1) \<Rightarrow> (Inr b, s1)
      | (None, s1) \<Rightarrow>
          (case directAttempt h pf url s1 of
             (Some b, s2) \<Rightarrow> (Inr b, s2)
           | (None, s2) \<Rightarrow> (Inl (Error download_message), s2)))"

section \<open>content.js: the upload\<close>

definition imageIndicators :: "string list" where
  \<open>imageIndicators =
     [''img[src*="blob:"]'',
      ''img[src*="data:"]'',
      ''[data-image]'',
      ''.image-preview'',
      ''.attachment'',
      ''.uploaded-image'']\<close>

fun first_indicator :: "dom \<Rightarrow> string list \<Rightarrow> string option" where
  "first_indicator d [] = None"
| "first_indicator d (sel # sels) =
     (case querySelector d sel of Some el \<Rightarrow> Some sel | None \<Rightarrow> first_indicator d sels)"

definition found_indicator :: string where
  "found_indicator = ''Found image indicator:''"

definition checkForUploadedImage :: "'w host \<Rightarrow> 'w run \<Rightarrow> bool \<times> 'w run" where
  "checkForUploadedImage h s =
     (case first_indicator (page h s) imageIndicators of
        Some sel \<Rightarrow> (True, console_log found_indicator [Str sel] s)
      | None \<Rightarrow> (False, s))"

definition addButtonSelectors :: "string list" where
  \<open>addButtonSelectors =
     [''button[aria-label*="Add"]'',
      ''button[aria-label*="add"]'',
      ''button[aria-label*="Upload"]'',
      ''button[aria-label*="upload"]'',
      ''button[aria-label*="Attach"]'',
      ''[data-tooltip*="Add"]'',
      ''[data-tooltip*="Upload"]'',
      ''.input-area button'',
      ''button:has(svg)'']\<close>

text \<open>
  The search for the add button. A selector the browser rejects throws inside the
  \<^verbatim>\<open>try\<close> of the loop and the loop goes on, as for a selector that matches nothing.
\<close>

fun find_add_button :: "dom \<Rightarrow> string list \<Rightarrow> nat option" where
  "find_add_button d [] = None"
| "find_add_button d (sel # sels) =
     (case find (\<lambda>btn. rect_bottom (box (node d btn)) > innerHeight d - 300
                        \<and> rect_width (box (node d btn)) > 20)
                (querySelectorAll d sel) of
        Some btn \<Rightarrow> Some btn
      | None \<Rightarrow> find_add_button d sels)"

definition pasteImageFromClipboard ::
    "'w host \<Rightarrow> jsfile \<Rightarrow> 'w run \<Rightarrow> (error + unit) \<times> 'w run" where
  "pasteImageFromClipboard h f s =
     (case findInputArea (page h s) of
        None \<Rightarrow> (Inl (Error ''No input area found''), s)
      | Some inputArea \<Rightarrow>
          (Inr (), perform h (Dispatch inputArea (PasteEvent f)) (perform h (Focus inputArea) s)))"

definition dragdrop_failed :: string where
  "dragdrop_failed = ''Drag-drop did not result in visible image upload''"

text \<open>The loop of \<^verbatim>\<open>simulateDragDropUpload\<close> over the drop targets.\<close>

fun drop_loop :: "'w host \<Rightarrow> jsfile \<Rightarrow> nat list \<Rightarrow> 'w run \<Rightarrow> 'w run" where
  "drop_loop h f [] s = console_log dragdrop_failed [] s"
| "drop_loop h f (dropTarget # rest) s =
     (let s1 = delay h 100 (perform h (Dispatch dropTarget (DragEnter f)) s);
          s2 = delay h 100 (perform h (Dispatch dropTarget (DragOver f)) s1);
          s3 = delay h 500 (perform h (Dispatch dropTarget (DropEvent f)) s2)
      in case checkForUploadedImage h s3 of
           (True, s4) \<Rightarrow> s4
         | (False, s4) \<Rightarrow> drop_loop h f rest s4)"

definition dropTargets :: "dom \<Rightarrow> nat list" where
  "dropTargets d =
     List.map_filter (\<lambda>x. x)
       [findInputArea d, querySelector d ''.chat-container'', querySelector d ''main'',
        Some (body d)]"

definition simulateDragDropUpload :: "'w host \<Rightarrow> jsfile \<Rightarrow> 'w run \<Rightarrow> 'w run" where
  "simulateDragDropUpload h f s = drop_loop h f (dropTargets (page h s)) s"

definition upload_unconfirmed :: string where
  "upload_unconfirmed = ''WARNING: Could not confirm image upload. Proceeding anyway...''"

text \<open>Method 1 of \<^verbatim>\<open>uploadImageToGemini\<close>: the add button, clicked where found.\<close>

definition clickAddButton :: "'w host \<Rightarrow> 'w run \<Rightarrow> 'w run" where
  "clickAddButton h s =
     (case find_add_button (page h s) addButtonSelectors of
        Some addButton \<Rightarrow> delay h 800 (perform h (Click addButton) s)
      | None \<Rightarrow> s)"

text \<open>Method 2: the file input, its two events and the settle.\<close>

definition fileInputAttempt :: "'w host \<Rightarrow> jsfile \<Rightarrow> nat \<Rightarrow> 'w run \<Rightarrow> 'w run" where
  "fileInputAttempt h f fileInput s =
     delay h 2000
       (perform h (Dispatch fileInput InputEvent)
          (perform h (Dispatch fileInput ChangeEvent) (perform h (SetFiles fileInput f) s)))"

text \<open>Method 4 and the end of the function.\<close>

definition dragDropMethod :: "'w host \<Rightarrow> jsfile \<Rightarrow> 'w run \<Rightarrow> 'w run" where
  "dragDropMethod h f s =
     (case checkForUploadedImage h (delay h 2000 (simulateDragDropUpload h f s)) of
        (True, s1) \<Rightarrow> s1
      | (False, s1) \<Rightarrow> console_log upload_unconfirmed [] s1)"

text \<open>Method 3, the paste, with what follows it.\<close>

definition clipboardMethod :: "'w host \<Rightarrow> jsfile \<Rightarrow> 'w run \<Rightarrow> 'w run" where
  "clipboardMethod h f s =
     (case pasteImageFromClipboard h f s of
        (Inl clipboardError, s1) \<Rightarrow>
          dragDropMethod h f
            (console_log ''Clipboard method failed:'' [Str (message clipboardError)] s1)
      | (Inr u, s1) \<Rightarrow>
          (case checkForUploadedImage h (delay h 2000 s1) of
             (True, s2) \<Rightarrow> s2
           | (False, s2) \<Rightarrow> dragDropMethod h f s2))"

definition file_selector :: string where
  \<open>file_selector = ''input[type="file"]''\<close>

definition uploadImageToGemini ::
    "'w host \<Rightarrow> platform \<Rightarrow> blob \<Rightarrow> string \<Rightarrow> 'w run \<Rightarrow> 'w run" where
  "uploadImageToGemini h pf imageBlob originalUrl s =
     (let f = make_file pf imageBlob originalUrl;
          s1 = clickAddButton h s
      in case querySelector (page h s1) file_selector of
           Some fileInput \<Rightarrow>
             (case checkForUploadedImage h (fileInputAttempt h f fileInput s1) of
                (True, s2) \<Rightarrow> s2
              | (False, s2) \<Rightarrow> clipboardMethod h f s2)
         | None \<Rightarrow> clipboardMethod h f s1)"

section \<open>content.js: clickSendButton\<close>

definition send_selector :: string where
  \<open>send_selector = ''[aria-label*="Send" i], [aria-label*="submit" i]''\<close>

text \<open>The test of method 1 on one button.\<close>

definition send_candidate :: "dom \<Rightarrow> nat \<Rightarrow> bool" where
  "send_candidate d btn =
     (let r = box (node d btn)
      in if rect_bottom r > innerHeight d - 200 \<and> rect_right r > innerWidth d / 2 then
           (let isIconButton = (rect_width r < 100 \<and> rect_height r < 100 \<and> rect_width r > 20);
                hasArrow = (includes_js (innerHTML (node d btn)) ''arrow''
                            \<or> includes_js (innerHTML (node d btn)) ''send''
                            \<or> includes_js (innerHTML (node d btn)) ''M2''
                            \<or> includes_js (innerHTML (node d btn)) ''path'');
                label = (case ariaLabel (node d btn) of Some l \<Rightarrow> l | None \<Rightarrow> [])
            in isIconButton \<and> (hasArrow \<or> includes_js (toLowerCase label) ''send''))
         else False)"

text \<open>The loop of method 3: the best button so far and its right edge.\<close>

fun rightmost :: "dom \<Rightarrow> rect \<Rightarrow> nat list \<Rightarrow> nat option \<times> real \<Rightarrow> nat option \<times> real" where
  "rightmost d inputRect [] best = best"
| "rightmost d inputRect (btn # btns) (bestButton, bestRight) =
     (if \<bar>rect_top (box (node d btn)) - rect_top inputRect\<bar> < 100
         \<and> rect_right (box (node d btn)) > bestRight
      then rightmost d inputRect btns (Some btn, rect_right (box (node d btn)))
      else rightmost d inputRect btns (bestButton, bestRight))"

definition send_not_found :: string where
  "send_not_found = ''Could not find send button - user will need to click manually''"

definition clickSendButton :: "'w host \<Rightarrow> 'w run \<Rightarrow> bool \<times> 'w run" where
  "clickSendButton h s =
     (let d = page h s;
          allButtons = querySelectorAll d ''button''
      in case find (send_candidate d) allButtons of
           Some btn \<Rightarrow>
             (True, perform h (Dispatch btn MouseClick) (delay h 100 (perform h (Click btn) s)))
         | None \<Rightarrow>
             (case querySelector d send_selector of
                Some sendByLabel \<Rightarrow> (True, perform h (Click sendByLabel) s)
              | None \<Rightarrow>
                  (case (case findInputArea d of
                           Some inputArea \<Rightarrow>
                             fst (rightmost d (box (node d inputArea)) allButtons (None, 0))
                         | None \<Rightarrow> None) of
                     Some bestButton \<Rightarrow> (True, perform h (Click bestButton) s)
                   | None \<Rightarrow> (False, console_log send_not_found [] s))))"

section \<open>content.js: the main function\<close>

text \<open>
  \<^verbatim>\<open>getPendingImage\<close>: the request, and the response of the service worker, which
  is undefined where the message did not get through.
\<close>

definition getPendingImage ::
    "'w host \<Rightarrow> platform \<Rightarrow> 'w run \<Rightarrow> pendingCheck option \<times> 'w run" where
  "getPendingImage h pf s =
     (let s1 = perform h (SendMessage GET_PENDING_IMAGE) s
      in case lastError pf GET_PENDING_IMAGE of
           Some m \<Rightarrow> (None, s1)
         | None \<Rightarrow>
             (case onMessage pf GET_PENDING_IMAGE (store s1) of
                (PendingReply r, st) \<Rightarrow> (r, s1\<lparr>store := st\<rparr>)
              | (other, st) \<Rightarrow> (None, s1\<lparr>store := st\<rparr>)))"

text \<open>The \<^verbatim>\<open>try\<close> block up to the send step (lines 36 to 88).\<close>

definition prepare ::
    "'w host \<Rightarrow> platform \<Rightarrow> pendingCheck \<Rightarrow> 'w run \<Rightarrow> (error + unit) \<times> 'w run" where
  "prepare h pf pendingImage s =
     (case waitForGeminiReady h s of
        (Inl e, s1) \<Rightarrow> (Inl e, s1)
      | (Inr inputArea, s1) \<Rightarrow>
          (case typeSynthIDQuery h (Some inputArea)
                  (showTypingOverlay h (hideLoadingOverlay h (delay h 1000 s1))) of
             (Inl e, s2) \<Rightarrow> (Inl e, s2)
           | (Inr u, s2) \<Rightarrow>
               (case fetchImage h pf (imageUrl pendingImage)
                       (showUploadingOverlay h (hideTypingOverlay h (delay h 500 s2))) of
                  (Inl e, s3) \<Rightarrow> (Inl e, s3)
                | (Inr imageBlob, s3) \<Rightarrow>
                    (let s4 = delay h 2000
                                (uploadImageToGemini h pf imageBlob (imageUrl pendingImage) s3);
                         (imageUploaded, s5) = checkForUploadedImage h s4;
                         s6 = (if \<not> imageUploaded
                               then console_log ''WARNING: Image may not have uploaded.'' [] s5
                               else s5)
                     in (Inr (),
                         delay h 800 (showSendingOverlay h (hideUploadingOverlay h s6)))))))"

text \<open>The send step and the end of the \<^verbatim>\<open>try\<close> block (lines 89 to 103).\<close>

definition send_step :: "'w host \<Rightarrow> 'w run \<Rightarrow> 'w run" where
  "send_step h s =
     (let (sendSuccess, s1) = clickSendButton h s;
          s2 = hideSendingOverlay h s1;
          s3 = (if sendSuccess then showCompletionAnimation h s2 else showManualSendPrompt h s2)
      in perform h (SendMessage (CHECK_COMPLETE True)) s3)"

text \<open>The \<^verbatim>\<open>catch\<close> block.\<close>

definition on_error :: "'w host \<Rightarrow> error \<Rightarrow> 'w run \<Rightarrow> 'w run" where
  "on_error h e s =
     perform h (SendMessage (CHECK_ERROR (message e)))
       (showErrorMessage h (message e) (hideLoadingOverlay h s))"

definition main :: "'w host \<Rightarrow> platform \<Rightarrow> 'w run \<Rightarrow> 'w run" where
  "main h pf s =
     (case getPendingImage h pf s of
        (None, s1) \<Rightarrow> console_log ''No pending image check, exiting'' [] s1
      | (Some pendingImage, s1) \<Rightarrow>
          if now s1 - timestamp pendingImage > 30000
          then console_log ''Pending image is too old, ignoring'' [] s1
          else
            (case prepare h pf pendingImage (showLoadingOverlay h s1) of
               (Inl e, s2) \<Rightarrow> on_error h e s2
             | (Inr u, s2) \<Rightarrow> send_step h s2))"

section \<open>The outcomes of the fetch and of the send step, in the words of the specification\<close>

text \<open>
  The bytes the privileged channel yields: the service worker fetches the image and
  sends it as a data URL, which the page turns into a blob.
\<close>

definition via_background :: "platform \<Rightarrow> string \<Rightarrow> blob option" where
  "via_background pf url =
     (case lastError pf (FETCH_IMAGE url) of
        Some m \<Rightarrow> None
      | None \<Rightarrow>
          (case fetchImageAsDataUrl pf url of
             Inl e \<Rightarrow> None
           | Inr dataUrl \<Rightarrow>
               (case page_fetch pf dataUrl of
                  NetworkError m \<Rightarrow> None
                | HttpResponse st txt bd \<Rightarrow> (case bd of Inl e \<Rightarrow> None | Inr b \<Rightarrow> Some b))))"

text \<open>The bytes the direct fetch from the page yields.\<close>

definition via_page :: "platform \<Rightarrow> string \<Rightarrow> blob option" where
  "via_page pf url =
     (case page_fetch pf url of
        NetworkError m \<Rightarrow> None
      | HttpResponse st txt bd \<Rightarrow>
          if ok st then (case bd of Inl e \<Rightarrow> None | Inr b \<Rightarrow> Some b) else None)"


text \<open>No heuristic of \<^verbatim>\<open>clickSendButton\<close> matches on a page: no icon button with a
  send mark in the lower right, no node labelled send or submit, no button level with the
  input area.\<close>

definition no_send_control :: "dom \<Rightarrow> bool" where
  "no_send_control d =
     (find (send_candidate d) (querySelectorAll d ''button'') = None
      \<and> querySelector d send_selector = None
      \<and> (case findInputArea d of
            Some inputArea \<Rightarrow>
              fst (rightmost d (box (node d inputArea)) (querySelectorAll d ''button'') (None, 0))
          | None \<Rightarrow> None) = None)"

section \<open>The injection stage, in the words of the specification\<close>






section \<open>Reading traces\<close>

text \<open>A later state of a run keeps the effects of an earlier one.\<close>

definition extends :: "'w run \<Rightarrow> 'w run \<Rightarrow> bool" where
  "extends s s' = prefix (trace s) (trace s')"


text \<open>The state of the run after \<open>k\<close> rounds of polling that found nothing.\<close>

definition polls :: "'w host \<Rightarrow> nat \<Rightarrow> 'w run \<Rightarrow> 'w run" where
  "polls h k s = ((delay h POLL_INTERVAL) ^^ k) s"

definition with_diagnostics :: "'w host \<Rightarrow> 'w run \<Rightarrow> 'w run" where
  "with_diagnostics h s = s\<lparr>trace := trace s @ timeout_diagnostics (page h s)\<rparr>"

text \<open>What \<^verbatim>\<open>simulateTyping\<close> does for a text.\<close>

definition keystrokes :: "nat \<Rightarrow> string \<Rightarrow> effect list" where
  "keystrokes el text =
     concat (map (\<lambda>c. [ExecInsertText c, Dispatch el (InsertTextInput c), Delay 50]) text)"

definition typed :: "nat \<Rightarrow> string \<Rightarrow> effect list" where
  "typed el text = Focus el # keystrokes el text"

fun is_keydown :: "effect \<Rightarrow> bool" where
  "is_keydown (Dispatch r (KeyDown k)) = True"
| "is_keydown e = False"

text \<open>The effects that touch nothing: log lines and waits.\<close>

fun is_passive :: "effect \<Rightarrow> bool" where
  "is_passive (Log m as) = True"
| "is_passive (Delay ms) = True"
| "is_passive AwaitLoad = True"
| "is_passive e = False"

text \<open>The strategies of the injection stage, the effects that belong to each, and
  their order.\<close>

datatype strategy = FileInput | Clipboard | DragDrop

fun strategy_of :: "effect \<Rightarrow> strategy option" where
  "strategy_of (SetFiles r f) = Some FileInput"
| "strategy_of (Dispatch r ChangeEvent) = Some FileInput"
| "strategy_of (Dispatch r InputEvent) = Some FileInput"
| "strategy_of (Dispatch r (PasteEvent f)) = Some Clipboard"
| "strategy_of (Dispatch r (DragEnter f)) = Some DragDrop"
| "strategy_of (Dispatch r (DragOver f)) = Some DragDrop"
| "strategy_of (Dispatch r (DropEvent f)) = Some DragDrop"
| "strategy_of e = None"

fun rank :: "strategy \<Rightarrow> nat" where
  "rank FileInput = 0"
| "rank Clipboard = 1"
| "rank DragDrop = 2"

definition attempts :: "effect list \<Rightarrow> strategy list" where
  "attempts es = List.map_filter strategy_of es"


text \<open>The log line of a check that has found an uploaded image, and the effects that
  come after the first such line.\<close>

fun is_found :: "effect \<Rightarrow> bool" where
  "is_found (Log m as) = (m = found_indicator)"
| "is_found e = False"

definition after_found :: "effect list \<Rightarrow> effect list" where
  "after_found es = drop 1 (dropWhile (\<lambda>e. \<not> is_found e) es)"

text \<open>The settle due after an effect, and the traces in which every such effect is
  followed at once by its settle.\<close>

fun settle_of :: "effect \<Rightarrow> int option" where
  "settle_of (Dispatch r InputEvent) = Some 2000"
| "settle_of (Dispatch r (PasteEvent f)) = Some 2000"
| "settle_of (Dispatch r (DragEnter f)) = Some 100"
| "settle_of (Dispatch r (DragOver f)) = Some 100"
| "settle_of (Dispatch r (DropEvent f)) = Some 500"
| "settle_of e = None"

fun settled :: "effect list \<Rightarrow> bool" where
  "settled [] = True"
| "settled [e] = (settle_of e = None)"
| "settled (e # e' # es) =
     ((case settle_of e of None \<Rightarrow> True | Some ms \<Rightarrow> e' = Delay ms) \<and> settled (e' # es))"

text \<open>The messages that report the outcome of a run, and the overlays that end one.\<close>

fun is_outcome :: "effect \<Rightarrow> bool" where
  "is_outcome (SendMessage (CHECK_COMPLETE b)) = True"
| "is_outcome (SendMessage (CHECK_ERROR m)) = True"
| "is_outcome e = False"

fun is_final_overlay :: "effect \<Rightarrow> bool" where
  "is_final_overlay (Show (Working a b)) = False"
| "is_final_overlay (Show k) = True"
| "is_final_overlay e = False"

definition calm :: "effect \<Rightarrow> bool" where
  "calm e = (\<not> is_outcome e \<and> \<not> is_final_overlay e)"

text \<open>The nodes clicked, and the characters inserted, in a trace.\<close>

fun clicked :: "effect \<Rightarrow> nat option" where
  "clicked (Click r) = Some r"
| "clicked (Dispatch r MouseClick) = Some r"
| "clicked e = None"

definition clicks :: "effect list \<Rightarrow> nat list" where
  "clicks es = List.map_filter clicked es"

fun inserted_char :: "effect \<Rightarrow> char option" where
  "inserted_char (ExecInsertText c) = Some c"
| "inserted_char e = None"

definition inserted :: "effect list \<Rightarrow> string" where
  "inserted es = List.map_filter inserted_char es"

text \<open>What a run may do before its upload stage, with \<open>el\<close> the input area: wait, log,
  show its working overlays, focus and click the input area, insert text, send Tab to the
  input area, ask the service worker for the image and fetch.\<close>

fun quiet :: "nat \<Rightarrow> effect \<Rightarrow> bool" where
  "quiet el (Log m as) = True"
| "quiet el (Delay ms) = True"
| "quiet el AwaitLoad = True"
| "quiet el RemoveAllOverlays = True"
| "quiet el (Show (Working a b)) = True"
| "quiet el (Show k) = False"
| "quiet el (Focus r) = (r = el)"
| "quiet el (Click r) = (r = el)"
| "quiet el (SetFiles r f) = False"
| "quiet el (ExecInsertText c) = True"
| "quiet el (Dispatch r (InsertTextInput c)) = (r = el)"
| "quiet el (Dispatch r (KeyDown k)) = (r = el \<and> k = ''Tab'')"
| "quiet el (Dispatch r ev) = False"
| "quiet el (SendMessage (FETCH_IMAGE u)) = True"
| "quiet el (SendMessage m) = False"
| "quiet el (Fetch u) = True"

text \<open>Invariants of the traces of the upload, used in the proofs: a trace that attempts
  strategies of rank \<open>m\<close> and more only, in order, none after a check has succeeded,
  with every settle in place, and that reports no outcome.\<close>

definition tidy :: "nat \<Rightarrow> effect list \<Rightarrow> bool" where
  "tidy m es =
     (list_all (\<lambda>st. m \<le> rank st) (attempts es)
      \<and> sorted (map rank (attempts es))
      \<and> attempts (after_found es) = []
      \<and> settled es
      \<and> list_all calm es)"

definition ends_well :: "effect list \<Rightarrow> bool" where
  "ends_well es = (es \<noteq> [] \<and> (is_found (last es) \<or> last es = Log upload_unconfirmed []))"

definition query_text :: string where
  "query_text = ''@synthid is this image real?''"


section \<open>Concrete pages and platforms\<close>

text \<open>A page that never changes and answers at once, and the start of a run on it.\<close>

definition static_host :: "dom \<Rightarrow> unit host" where
  "static_host d =
     \<lparr>view = (\<lambda>w. d), react = (\<lambda>e w. w), takes = (\<lambda>e w. 0), load_after = (\<lambda>w. 0)\<rparr>"

definition start :: "int \<Rightarrow> storage \<Rightarrow> unit run" where
  "start t st = \<lparr>world = (), now = t, trace = [], store = st\<rparr>"

definition no_box :: rect where
  "no_box = \<lparr>rect_width = 0, rect_height = 0, rect_top = 0, rect_bottom = 0, rect_right = 0\<rparr>"

definition plain_element :: element where
  "plain_element =
     \<lparr>selectors = [], ancestors = [], box = no_box, innerHTML = [], textContent = [],
      ariaLabel = None, offsetHeight = 0, childCount = 0\<rparr>"

definition cat_url :: string where
  "cat_url = ''https://example.com/cat.png''"

definition cat_blob :: blob where
  "cat_blob = \<lparr>blob_type = ''image/png'', blob_data = ''PNG''\<rparr>"

definition cat_data_url :: string where
  "cat_data_url = ''data:image/png;base64,UE5H''"

text \<open>A platform on which the image cannot be fetched, by either way.\<close>

definition blocked_platform :: platform where
  "blocked_platform =
     \<lparr>parseURL = (\<lambda>u. if u = cat_url then Some (URL ''/cat.png'') else None),
      bg_fetch = (\<lambda>u. HttpResponse 403 ''Forbidden'' (Inl (Error ''no body''))),
      page_fetch = (\<lambda>u. NetworkError ''Failed to fetch''),
      readAsDataURL = (\<lambda>b. None),
      lastError = (\<lambda>m. None)\<rparr>"

text \<open>A platform on which the service worker fetches the image.\<close>

definition open_platform :: platform where
  "open_platform =
     \<lparr>parseURL = (\<lambda>u. if u = cat_url then Some (URL ''/cat.png'') else None),
      bg_fetch = (\<lambda>u. HttpResponse 200 ''OK'' (Inr cat_blob)),
      page_fetch = (\<lambda>u. if u = cat_data_url then HttpResponse 200 ''OK'' (Inr cat_blob)
                          else NetworkError ''Failed to fetch''),
      readAsDataURL = (\<lambda>b. Some cat_data_url),
      lastError = (\<lambda>m. None)\<rparr>"

definition cat_check :: "int \<Rightarrow> pendingCheck" where
  "cat_check t = \<lparr>imageUrl = cat_url, timestamp = t, sourceTabId = 7\<rparr>"

definition one_pending :: "int \<Rightarrow> storage" where
  "one_pending t = Map.empty(pending_key \<mapsto> cat_check t)"

definition editable_div :: "real \<Rightarrow> real \<Rightarrow> element" where
  \<open>editable_div w ht =
     plain_element
       \<lparr>selectors := [''[contenteditable="true"]'', ''div[contenteditable="true"]'',
                      ''[contenteditable]''],
        box := \<lparr>rect_width = w, rect_height = ht, rect_top = 600, rect_bottom = 600 + ht,
                rect_right = 300 + w\<rparr>\<rparr>\<close>

text \<open>A page whose only editable node is a box of 50 by 10.\<close>

definition tiny_dom :: dom where
  "tiny_dom =
     \<lparr>readyState = ''complete'',
      node = (\<lambda>r. if r = 11 then editable_div 50 10 else plain_element),
      doc = [0, 11], body = 0, innerWidth = 1280, innerHeight = 720,
      href = ''https://gemini.google.com/app''\<rparr>"

text \<open>A page with nothing but its body.\<close>

definition empty_dom :: dom where
  "empty_dom =
     \<lparr>readyState = ''complete'', node = (\<lambda>r. plain_element), doc = [0], body = 0,
      innerWidth = 1280, innerHeight = 720, href = ''https://gemini.google.com/app''\<rparr>"

text \<open>A chat page: the body, an input area of 600 by 40, an open list of suggestions,
  a file input, the preview of an uploaded image and a send button.\<close>

definition chat_node :: "nat \<Rightarrow> element" where
  \<open>chat_node r =
     (if r = 11 then editable_div 600 40
      else if r = 12 then
        plain_element
          \<lparr>selectors := [dropdown_selector], textContent := ''@SynthID'', offsetHeight := 48,
           childCount := 1\<rparr>
      else if r = 13 then plain_element\<lparr>selectors := [file_selector]\<rparr>
      else if r = 14 then plain_element\<lparr>selectors := [''img[src*="blob:"]'']\<rparr>
      else if r = 15 then
        plain_element
          \<lparr>selectors := [''button'', send_selector],
           box := \<lparr>rect_width = 40, rect_height = 40, rect_top = 600, rect_bottom = 640,
                   rect_right = 1000\<rparr>,
           innerHTML := ''<mat-icon>send</mat-icon>'',
           ariaLabel := Some ''Send message''\<rparr>
      else plain_element)\<close>

definition chat_dom :: "nat list \<Rightarrow> dom" where
  "chat_dom rs =
     \<lparr>readyState = ''complete'', node = chat_node, doc = rs, body = 0,
      innerWidth = 1280, innerHeight = 720, href = ''https://gemini.google.com/app''\<rparr>"

definition ready_dom :: dom where
  "ready_dom = chat_dom [0, 11, 12]"


definition sendless_dom :: dom where
  "sendless_dom = chat_dom [0, 11, 12, 13, 14]"





text \<open>A chat page that commits the mention at the first Tab: its state counts the keys
  it has received.\<close>

definition mention_dom :: "nat \<Rightarrow> dom" where
  "mention_dom w =
     ready_dom
       \<lparr>node := (\<lambda>r. if r = 11
                      then (chat_node 11)
                             \<lparr>textContent := (if 1 \<le> w then ''@SynthID '' else ''@synthid'')\<rparr>
                      else chat_node r)\<rparr>"

definition mention_host :: "nat host" where
  "mention_host =
     \<lparr>view = mention_dom, react = (\<lambda>e w. if is_keydown e then Suc w else w),
      takes = (\<lambda>e w. 0), load_after = (\<lambda>w. 0)\<rparr>"

definition mention_start :: "nat run" where
  "mention_start = \<lparr>world = 0, now = 0, trace = [], store = Map.empty\<rparr>"

section \<open>Properties of the file name\<close>

lemma startsWith_js_prefix: "startsWith_js s t = prefix t s"
  by (induction s t rule: startsWith_js.induct) auto

lemma includes_js_sublist: "includes_js s t = sublist t s"
  by (induction s t rule: includes_js.induct)
     (auto simp: startsWith_js_prefix sublist_Cons_right)

lemma includes_js_char: "includes_js s [c] = (c \<in> set s)"
  by (induction s) auto

lemma split_js_nonempty: "split_js c s \<noteq> []"
  by (induction s) (auto split: list.splits)

lemma split_js_no_sep: "c \<notin> set s \<Longrightarrow> split_js c s = [s]"
  by (induction s) auto

lemma split_js_sep: "c \<in> set s \<Longrightarrow> \<exists>p q qs. split_js c s = p # q # qs"
proof (induction s)
  case Nil
  then show ?case by simp
next
  case (Cons x xs)
  obtain p ps where sp: "split_js c xs = p # ps"
    using split_js_nonempty [of c xs] by (cases "split_js c xs") auto
  show ?case
  proof (cases "x = c")
    case True
    then show ?thesis using sp by simp
  next
    case False
    then have "c \<in> set xs" using Cons.prems by simp
    then obtain p' q qs where "split_js c xs = p' # q # qs"
      using Cons.IH by blast
    then show ?thesis using False by simp
  qed
qed

lemma last_split_js: "last (split_js c s) = rev (takeWhile (\<lambda>x. x \<noteq> c) (rev s))"
proof (induction s)
  case Nil
  show ?case by simp
next
  case (Cons x xs)
  show ?case
  proof (cases "c \<in> set xs")
    case True
    then obtain p q qs where sp: "split_js c xs = p # q # qs"
      using split_js_sep by blast
    have "last (split_js c (x # xs)) = last (split_js c xs)"
      using sp by simp
    also have "\<dots> = rev (takeWhile (\<lambda>x. x \<noteq> c) (rev xs))"
      by (rule Cons.IH)
    also have "\<dots> = rev (takeWhile (\<lambda>x. x \<noteq> c) (rev (x # xs)))"
      using True by (auto simp: takeWhile_append)
    finally show ?thesis .
  next
    case False
    then have sp: "split_js c xs = [xs]"
      by (rule split_js_no_sep)
    have tw: "takeWhile (\<lambda>x. x \<noteq> c) (rev xs) = rev xs"
      using False by (auto simp: takeWhile_eq_all_conv)
    show ?thesis
      using sp tw False by (auto simp: takeWhile_append)
  qed
qed

lemma nth_js_last: "xs \<noteq> [] \<Longrightarrow> nth_js xs (int (length xs) - 1) = Some (last xs)"
  by (cases xs rule: rev_cases) (auto simp: nth_js_def nth_append)

lemma getFileNameFromUrl_eq:
  "getFileNameFromUrl pf url =
     (case parseURL pf url of
        None \<Rightarrow> ''image.png''
      | Some u \<Rightarrow>
          if last_segment (pathname u) \<noteq> [] \<and> CHR ''.'' \<in> set (last_segment (pathname u))
          then last_segment (pathname u) else ''image.png'')"
  by (simp add: getFileNameFromUrl_def default_name_def Let_def nth_js_last split_js_nonempty
      last_split_js last_segment_def includes_js_char split: option.splits)


section \<open>The store of the service worker\<close>

lemma onMessage_keeps_empty:
  "st pending_key = None \<Longrightarrow> onMessage pf m st = (r, st') \<Longrightarrow>
     st' pending_key = None \<and> \<not> observed r"
  by (cases m) (auto simp: Let_def split: sum.splits)

lemma serve_empty:
  "st pending_key = None \<Longrightarrow> list_all (\<lambda>r. \<not> observed r) (serve pf ms st)"
proof (induction ms arbitrary: st)
  case Nil
  show ?case by simp
next
  case (Cons m ms)
  obtain r st' where step: "onMessage pf m st = (r, st')"
    by (cases "onMessage pf m st")
  from onMessage_keeps_empty [OF Cons.prems step]
  have "st' pending_key = None" and "\<not> observed r" by simp_all
  with Cons.IH [of st'] step show ?case by simp
qed

lemma onMessage_clears:
  "onMessage pf m st = (r, st') \<Longrightarrow> observed r \<Longrightarrow> st' pending_key = None"
  by (cases m) (auto simp: Let_def split: sum.splits if_splits)

lemma serve_at_most_one:
  "length (filter observed (serve pf ms st)) \<le> 1"
proof (induction ms arbitrary: st)
  case Nil
  show ?case by simp
next
  case (Cons m ms)
  obtain r st' where step: "onMessage pf m st = (r, st')"
    by (cases "onMessage pf m st")
  show ?case
  proof (cases "observed r")
    case True
    then have "st' pending_key = None"
      using step by (rule onMessage_clears [rotated])
    then have "filter observed (serve pf ms st') = []"
      using serve_empty [of st' pf ms] by (simp add: filter_empty_conv list_all_iff)
    then show ?thesis using step True by simp
  next
    case False
    then show ?thesis using step Cons.IH [of st'] by simp
  qed
qed

text \<open>A message handled alone: the steps of the handler give what \<open>onMessage\<close>
  gives.\<close>

lemma handled_alone:
  "schedule [Arrives i, Serves, Serves] (idle st)
     = \<lparr>held = snd (onMessage pf GET_PENDING_IMAGE st), issued = [],
        responses = [(i, st pending_key)]\<rparr>"
  by (auto simp: schedule_def idle_def Let_def)

lemma handled_alone_response:
  "fst (onMessage pf GET_PENDING_IMAGE st) = PendingReply (st pending_key)"
  by (simp add: Let_def)

text \<open>Two requests of which the second arrives before the read of the first is served:
  both are answered with the record.\<close>

lemma overlapping_requests:
  "responses (schedule [Arrives i, Arrives j, Serves, Serves] (idle (st(pending_key \<mapsto> p))))
     = [(i, Some p), (j, Some p)]"
  by (simp add: schedule_def idle_def Let_def)

section \<open>The primitives of a run\<close>

lemma trace_perform [simp]: "trace (perform h e s) = trace s @ [e]"
  by (simp add: perform_def)

lemma trace_console_log [simp]: "trace (console_log m as s) = trace s @ [Log m as]"
  by (simp add: console_log_def)

lemma trace_delay [simp]: "trace (delay h ms s) = trace s @ [Delay ms]"
  by (simp add: delay_def)

lemma trace_awaitLoad [simp]: "trace (awaitLoad h s) = trace s @ [AwaitLoad]"
  by (simp add: awaitLoad_def)

lemma now_perform [simp]: "now (perform h e s) = now s + int (takes h e (world s))"
  by (simp add: perform_def)

lemma now_console_log [simp]: "now (console_log m as s) = now s"
  by (simp add: console_log_def)

lemma now_delay [simp]: "now (delay h ms s) = now s + int (takes h (Delay ms) (world s)) + ms"
  by (simp add: delay_def)

lemma store_perform [simp]: "store (perform h e s) = store s"
  by (simp add: perform_def)

lemma store_console_log [simp]: "store (console_log m as s) = store s"
  by (simp add: console_log_def)

lemma store_delay [simp]: "store (delay h ms s) = store s"
  by (simp add: delay_def)

lemma world_perform [simp]: "world (perform h e s) = react h e (world s)"
  by (simp add: perform_def)

lemma world_console_log [simp]: "world (console_log m as s) = world s"
  by (simp add: console_log_def)

lemma world_delay [simp]: "world (delay h ms s) = react h (Delay ms) (world s)"
  by (simp add: delay_def)

lemma page_console_log [simp]: "page h (console_log m as s) = page h s"
  by (simp add: page_def)

lemma page_static [simp]: "page (static_host d) s = d"
  by (simp add: page_def static_host_def)

lemma takes_static [simp]: "takes (static_host d) e w = 0"
  by (simp add: static_host_def)

lemma since_self [simp]: "since s s = []"
  by (simp add: since_def)

lemma since_eq: "trace s' = trace s @ es \<Longrightarrow> since s s' = es"
  by (simp add: since_def)

lemma extends_refl [simp]: "extends s s"
  by (simp add: extends_def)

lemma extends_trans: "extends a b \<Longrightarrow> extends b c \<Longrightarrow> extends a c"
  by (auto simp: extends_def)

lemma trace_since: "extends s s' \<Longrightarrow> trace s' = trace s @ since s s'"
  by (auto simp: extends_def since_def prefix_def)




section \<open>fetchImage\<close>

lemma backgroundAttempt_result:
  "fst (backgroundAttempt h pf url s) = via_background pf url"
  by (simp add: backgroundAttempt_def fetchImageViaBackground_def via_background_def Let_def
      split: option.splits sum.splits fetch_result.splits fetch_reply.splits)


lemma backgroundAttempt_extends: "extends s (snd (backgroundAttempt h pf url s))"
  by (simp add: backgroundAttempt_def fetchImageViaBackground_def Let_def extends_def
      split: option.splits sum.splits fetch_result.splits fetch_reply.splits)

lemma directAttempt_result: "fst (directAttempt h pf url s) = via_page pf url"
  by (simp add: directAttempt_def via_page_def Let_def
      split: option.splits sum.splits fetch_result.splits)


lemma directAttempt_extends: "extends s (snd (directAttempt h pf url s))"
  by (simp add: directAttempt_def Let_def extends_def
      split: option.splits sum.splits fetch_result.splits)

lemma fetchImage_result:
  "fst (fetchImage h pf url s) =
     (case via_background pf url of
        Some b \<Rightarrow> Inr b
      | None \<Rightarrow>
          (case via_page pf url of Some b \<Rightarrow> Inr b | None \<Rightarrow> Inl (Error download_message)))"
proof -
  obtain r1 s1 where b: "backgroundAttempt h pf url s = (r1, s1)"
    by (cases "backgroundAttempt h pf url s")
  obtain r2 s2 where d: "directAttempt h pf url s1 = (r2, s2)"
    by (cases "directAttempt h pf url s1")
  have r1: "r1 = via_background pf url"
    using backgroundAttempt_result [of h pf url s] b by simp
  have r2: "r2 = via_page pf url"
    using directAttempt_result [of h pf url s1] d by simp
  show ?thesis
    using b d r1 r2 by (simp add: fetchImage_def split: option.splits)
qed


lemma fetchImage_extends: "extends s (snd (fetchImage h pf url s))"
proof -
  obtain r1 s1 where b: "backgroundAttempt h pf url s = (r1, s1)"
    by (cases "backgroundAttempt h pf url s")
  obtain r2 s2 where d: "directAttempt h pf url s1 = (r2, s2)"
    by (cases "directAttempt h pf url s1")
  have e1: "extends s s1"
    using backgroundAttempt_extends [of s h pf url] b by simp
  have e2: "extends s1 s2"
    using directAttempt_extends [of s1 h pf url] d by simp
  show ?thesis
    using b d e1 extends_trans [OF e1 e2]
    by (simp add: fetchImage_def split: option.splits)
qed


section \<open>waitForGeminiReady\<close>

lemma polls_0 [simp]: "polls h 0 s = s"
  by (simp add: polls_def)

lemma polls_Suc: "polls h (Suc k) s = polls h k (delay h POLL_INTERVAL s)"
  by (simp add: polls_def funpow_swap1)

lemma now_polls: "now s + 500 * int k \<le> now (polls h k s)"
proof (induction k arbitrary: s)
  case 0
  show ?case by simp
next
  case (Suc k)
  have "now s + 500 * int (Suc k) \<le> now (delay h POLL_INTERVAL s) + 500 * int k"
    by (simp add: POLL_INTERVAL_def)
  also have "\<dots> \<le> now (polls h k (delay h POLL_INTERVAL s))"
    by (rule Suc.IH)
  finally show ?case by (simp add: polls_Suc)
qed

lemma trace_polls: "trace (polls h k s) = trace s @ replicate k (Delay 500)"
  by (induction k arbitrary: s)
     (simp_all add: polls_Suc POLL_INTERVAL_def replicate_append_same)

lemma poll_loop_found:
  "now (polls h k s) - t < MAX_WAIT_TIME \<Longrightarrow>
   poll_once (page h (polls h k s)) = Some el \<Longrightarrow>
   (\<forall>j<k. poll_once (page h (polls h j s)) = None) \<Longrightarrow>
   poll_loop h t s = (Inr el, polls h k s)"
proof (induction k arbitrary: s)
  case 0
  then show ?case by (simp add: poll_loop.simps)
next
  case (Suc k)
  have bound: "now s - t < MAX_WAIT_TIME"
    using Suc.prems(1) now_polls [of s "Suc k" h] by simp
  have none: "poll_once (page h s) = None"
    using Suc.prems(3) [rule_format, of 0] by simp
  have later: "\<forall>j<k. poll_once (page h (polls h j (delay h POLL_INTERVAL s))) = None"
  proof (intro allI impI)
    fix j assume "j < k"
    then have "Suc j < Suc k" by simp
    then have "poll_once (page h (polls h (Suc j) s)) = None"
      using Suc.prems(3) by blast
    then show "poll_once (page h (polls h j (delay h POLL_INTERVAL s))) = None"
      by (simp add: polls_Suc)
  qed
  have "poll_loop h t (delay h POLL_INTERVAL s) = (Inr el, polls h k (delay h POLL_INTERVAL s))"
    using Suc.prems(1,2) later by (intro Suc.IH) (simp_all add: polls_Suc)
  then show ?case
    using bound none by (simp add: poll_loop.simps [of h t s] polls_Suc)
qed

lemma poll_loop_timeout:
  "(\<forall>k. now (polls h k s) - t < MAX_WAIT_TIME \<longrightarrow> poll_once (page h (polls h k s)) = None) \<Longrightarrow>
   \<exists>n. poll_loop h t s = (Inl (Error timeout_message), with_diagnostics h (polls h n s))
       \<and> MAX_WAIT_TIME \<le> now (polls h n s) - t
       \<and> (\<forall>j<n. now (polls h j s) - t < MAX_WAIT_TIME)"
proof (induction h t s rule: poll_loop.induct)
  case (1 h startTime s)
  show ?case
  proof (cases "now s - startTime < MAX_WAIT_TIME")
    case False
    then have "poll_loop h startTime s = (Inl (Error timeout_message), with_diagnostics h (polls h 0 s))"
      by (simp add: poll_loop.simps [of h startTime s] with_diagnostics_def)
    moreover have "MAX_WAIT_TIME \<le> now (polls h 0 s) - startTime"
      using False by simp
    ultimately show ?thesis by (intro exI [of _ 0]) simp
  next
    case True
    have none: "poll_once (page h s) = None"
      using "1.prems" [rule_format, of 0] True by simp
    have later: "\<forall>k. now (polls h k (delay h POLL_INTERVAL s)) - startTime < MAX_WAIT_TIME
        \<longrightarrow> poll_once (page h (polls h k (delay h POLL_INTERVAL s))) = None"
      using "1.prems" [rule_format, of "Suc _"] by (simp add: polls_Suc)
    obtain n where n:
      "poll_loop h startTime (delay h POLL_INTERVAL s) =
         (Inl (Error timeout_message), with_diagnostics h (polls h n (delay h POLL_INTERVAL s)))"
      "MAX_WAIT_TIME \<le> now (polls h n (delay h POLL_INTERVAL s)) - startTime"
      "\<forall>j<n. now (polls h j (delay h POLL_INTERVAL s)) - startTime < MAX_WAIT_TIME"
      using "1.IH" [OF True none later] by blast
    have a: "poll_loop h startTime s =
        (Inl (Error timeout_message), with_diagnostics h (polls h (Suc n) s))"
      using True none n(1) by (simp add: poll_loop.simps [of h startTime s] polls_Suc)
    have b: "MAX_WAIT_TIME \<le> now (polls h (Suc n) s) - startTime"
      using n(2) by (simp add: polls_Suc)
    have c: "\<forall>j<Suc n. now (polls h j s) - startTime < MAX_WAIT_TIME"
    proof (intro allI impI)
      fix j assume j: "j < Suc n"
      show "now (polls h j s) - startTime < MAX_WAIT_TIME"
      proof (cases j)
        case 0
        then show ?thesis using True by simp
      next
        case (Suc i)
        then have "i < n" using j by simp
        then show ?thesis using n(3) Suc by (simp add: polls_Suc)
      qed
    qed
    show ?thesis using a b c by blast
  qed
qed

lemma poll_loop_outcome:
  "poll_loop h t s = (r, s') \<Longrightarrow>
   (\<exists>el. r = Inr el \<and> poll_once (page h s') = Some el \<and> now s' - t < MAX_WAIT_TIME)
   \<or> (r = Inl (Error timeout_message) \<and> MAX_WAIT_TIME \<le> now s' - t)"
proof (induction h t s rule: poll_loop.induct)
  case (1 h startTime s)
  show ?case
  proof (cases "now s - startTime < MAX_WAIT_TIME")
    case False
    then show ?thesis
      using "1.prems" by (auto simp: poll_loop.simps [of h startTime s])
  next
    case True
    show ?thesis
    proof (cases "poll_once (page h s)")
      case None
      then have "poll_loop h startTime (delay h POLL_INTERVAL s) = (r, s')"
        using True "1.prems" by (simp add: poll_loop.simps [of h startTime s])
      then show ?thesis using "1.IH" [OF True None] by simp
    next
      case (Some el)
      then show ?thesis
        using True "1.prems" by (auto simp: poll_loop.simps [of h startTime s])
    qed
  qed
qed

lemma awaitDocument_now: "2000 \<le> now (awaitDocument h s) - now s"
  by (simp add: awaitDocument_def awaitLoad_def)

lemma awaitDocument_now_static: "now (awaitDocument (static_host d) s) - now s \<le> 4000"
  by (simp add: awaitDocument_def awaitLoad_def)


lemma scan_finds_suitable:
  "find (\<lambda>r. suitable (node d r)) (querySelectorAll d editable_selector) = Some el \<Longrightarrow>
   suitable (node d el)"
  by (auto simp: find_Some_iff)


section \<open>typeSynthIDQuery\<close>

lemma trace_type_chars: "trace (type_chars h el cs s) = trace s @ keystrokes el cs"
  by (induction cs arbitrary: s) (simp_all add: keystrokes_def)

lemma trace_simulateTyping [simp]:
  "trace (simulateTyping h el text s) = trace s @ typed el text"
  by (simp add: simulateTyping_def trace_type_chars typed_def)

lemma keydown_keystrokes [simp]: "filter is_keydown (keystrokes el str) = []"
  by (induction str) (simp_all add: keystrokes_def)

lemma keydown_typed [simp]: "filter is_keydown (typed el text) = []"
  by (simp add: typed_def)

lemma keydown_passive: "list_all is_passive es \<Longrightarrow> filter is_keydown es = []"
proof (induction es)
  case Nil
  show ?case by simp
next
  case (Cons e es)
  then show ?case by (cases e) simp_all
qed

lemma dropdown_loop_emits:
  "\<exists>es. trace (snd (dropdown_loop h m t s)) = trace s @ es \<and> list_all is_passive es"
proof (induction h m t s rule: dropdown_loop.induct)
  case (1 h maxWait startTime s)
  show ?case
  proof (cases "now s - startTime < maxWait \<and> \<not> dropdown_detected (page h s)")
    case True
    then obtain es where es:
      "trace (snd (dropdown_loop h maxWait startTime (delay h 100 s))) = trace (delay h 100 s) @ es"
      "list_all is_passive es"
      using "1.IH" by blast
    have "dropdown_loop h maxWait startTime s = dropdown_loop h maxWait startTime (delay h 100 s)"
      using True by (simp add: dropdown_loop.simps [of h maxWait startTime s])
    then have "trace (snd (dropdown_loop h maxWait startTime s)) = trace s @ (Delay 100 # es)"
      using es(1) by simp
    moreover have "list_all is_passive (Delay 100 # es)"
      using es(2) by simp
    ultimately show ?thesis by blast
  next
    case False
    then consider "now s - startTime < maxWait" "dropdown_detected (page h s)"
      | "\<not> now s - startTime < maxWait" by blast
    then show ?thesis
    proof cases
      case 1
      then have "trace (snd (dropdown_loop h maxWait startTime s)) = trace s @ []"
        by (simp add: dropdown_loop.simps [of h maxWait startTime s])
      then show ?thesis by (intro exI [of _ "[]"]) simp
    next
      case 2
      then have "trace (snd (dropdown_loop h maxWait startTime s)) =
          trace s @ [Log ''Dropdown wait timed out, proceeding anyway'' []]"
        by (simp add: dropdown_loop.simps [of h maxWait startTime s])
      then show ?thesis
        by (intro exI [of _ "[Log ''Dropdown wait timed out, proceeding anyway'' []]"]) simp
    qed
  qed
qed

lemma waitForDropdown_extends: "extends s (snd (waitForDropdown h m s))"
  using dropdown_loop_emits [of h m "now s" s]
  by (auto simp: waitForDropdown_def extends_def)

lemma trace_waitForDropdown [simp]:
  "trace (snd (waitForDropdown h m s)) = trace s @ since s (snd (waitForDropdown h m s))"
  by (rule trace_since [OF waitForDropdown_extends])

lemma passive_waitForDropdown [simp]:
  "list_all is_passive (since s (snd (waitForDropdown h m s)))"
  using dropdown_loop_emits [of h m "now s" s]
  by (auto simp: waitForDropdown_def since_def)

lemma keydown_waitForDropdown [simp]:
  "filter is_keydown (since s (snd (waitForDropdown h m s))) = []"
  by (rule keydown_passive) simp

lemma trace_mention_entry:
  "\<exists>es. trace (mention_entry h el s) = trace s @ es
        \<and> filter is_keydown es = [Dispatch el (KeyDown ''Tab'')]"
  by (simp add: mention_entry_def Let_def pressTab_def)

lemma trace_mention_retry:
  "\<exists>es. trace (mention_retry h el s) = trace s @ es
        \<and> filter is_keydown es =
            (if checkForSynthIdTag (node (page h s) el) then []
             else [Dispatch el (KeyDown ''Tab'')])"
  by (simp add: mention_retry_def Let_def pressTab_def)


section \<open>The page that commits the mention\<close>

lemma dropdown_mention_dom: "dropdown_detected (mention_dom w)"
  by (simp add: dropdown_detected_def querySelector_def querySelectorAll_def mention_dom_def
      ready_dom_def chat_dom_def chat_node_def plain_element_def editable_div_def
      dropdown_selector_def)

lemma page_mention_host: "page mention_host s = mention_dom (world s)"
  by (simp add: page_def mention_host_def)

lemma waitForDropdown_mention:
  "waitForDropdown mention_host 3000 s = (True, s)"
  by (simp add: waitForDropdown_def dropdown_loop.simps [of mention_host 3000 "now s" s]
      page_mention_host dropdown_mention_dom)

lemma world_type_chars_mention:
  "world (type_chars mention_host el cs s) = world s"
  by (induction cs arbitrary: s) (simp_all add: mention_host_def)

lemma world_simulateTyping_mention:
  "world (simulateTyping mention_host el str s) = world s"
  by (simp add: simulateTyping_def world_type_chars_mention) (simp add: mention_host_def)

lemma world_mention_entry: "world (mention_entry mention_host 11 mention_start) = 1"
  by (simp add: mention_entry_def Let_def waitForDropdown_mention world_simulateTyping_mention
      pressTab_def)
     (simp add: mention_host_def mention_start_def)

lemma tag_after_tab:
  "checkForSynthIdTag (node (page mention_host (mention_entry mention_host 11 mention_start)) 11)"
  by (simp add: page_mention_host world_mention_entry mention_dom_def checkForSynthIdTag_def)

lemma no_tag_static:
  "\<not> checkForSynthIdTag (node ready_dom 11)"
  by (simp add: ready_dom_def chat_dom_def chat_node_def editable_div_def plain_element_def
      checkForSynthIdTag_def)


section \<open>uploadImageToGemini\<close>

lemma attempts_Nil [simp]: "attempts [] = []"
  by (simp add: attempts_def map_filter_simps)

lemma attempts_Cons [simp]:
  "attempts (e # es) = (case strategy_of e of None \<Rightarrow> attempts es | Some st \<Rightarrow> st # attempts es)"
  by (simp add: attempts_def map_filter_simps split: option.splits)

lemma attempts_append [simp]: "attempts (xs @ ys) = attempts xs @ attempts ys"
  by (induction xs) (simp_all split: option.splits)

lemma after_found_Nil [simp]: "after_found [] = []"
  by (simp add: after_found_def)

lemma after_found_Cons [simp]:
  "after_found (e # es) = (if is_found e then es else after_found es)"
  by (simp add: after_found_def)

lemma after_found_append:
  "after_found (xs @ ys) =
     (if list_ex is_found xs then after_found xs @ ys else after_found ys)"
  by (induction xs) simp_all

lemma attempts_after_found: "attempts es = [] \<Longrightarrow> attempts (after_found es) = []"
  by (induction es) (simp_all split: option.splits if_splits)

lemma settled_Cons: "settled (e # es) \<Longrightarrow> settled es"
  by (cases es) simp_all

lemma settled_append:
  "settled xs \<Longrightarrow> settled ys \<Longrightarrow> xs = [] \<or> settle_of (last xs) = None \<Longrightarrow> settled (xs @ ys)"
proof (induction xs rule: settled.induct)
  case 1
  then show ?case by simp
next
  case (2 e)
  then show ?case by (cases ys) simp_all
next
  case (3 e e' es)
  then show ?case by simp
qed

lemma tidy_tail:
  "tidy m xs \<Longrightarrow> attempts ys = [] \<Longrightarrow> settled ys \<Longrightarrow> list_all calm ys \<Longrightarrow>
   xs = [] \<or> settle_of (last xs) = None \<Longrightarrow> tidy m (xs @ ys)"
  by (simp add: tidy_def after_found_append attempts_after_found settled_append)

lemma tidy_prepend:
  assumes "tidy m es"
    and "list_all (\<lambda>st. m' \<le> rank st \<and> rank st \<le> m) (attempts p)"
    and "sorted (map rank (attempts p))"
    and "\<not> list_ex is_found p"
    and "settled p"
    and "p = [] \<or> settle_of (last p) = None"
    and "m' \<le> m"
    and "list_all calm p"
  shows "tidy m' (p @ es)"
proof -
  have a: "list_all (\<lambda>st. m' \<le> rank st) (attempts (p @ es))"
    using assms(1,2,7) by (auto simp: tidy_def list_all_iff)
  have "rank x \<le> rank y" if "x \<in> set (attempts p)" and "y \<in> set (attempts es)" for x y
  proof -
    have "rank x \<le> m" using assms(2) that(1) by (auto simp: list_all_iff)
    moreover have "m \<le> rank y" using assms(1) that(2) by (auto simp: tidy_def list_all_iff)
    ultimately show ?thesis by simp
  qed
  then have b: "sorted (map rank (attempts (p @ es)))"
    using assms(1,3) by (auto simp: tidy_def sorted_append)
  have c: "attempts (after_found (p @ es)) = []"
    using assms(1,4) by (simp add: tidy_def after_found_append)
  have d: "settled (p @ es)"
    using assms(1,5,6) by (simp add: tidy_def settled_append)
  have e: "list_all calm (p @ es)"
    using assms(1,8) by (simp add: tidy_def)
  show ?thesis using a b c d e by (simp add: tidy_def)
qed

lemma checkForUploadedImage_cases:
  "checkForUploadedImage h s = (b, s') \<Longrightarrow>
   (b \<and> (\<exists>sel. s' = console_log found_indicator [Str sel] s)) \<or> (\<not> b \<and> s' = s)"
  by (auto simp: checkForUploadedImage_def split: option.splits)

lemma drop_loop_trace:
  "\<exists>es. trace (drop_loop h f ts s) = trace s @ es \<and> tidy 2 es
        \<and> es \<noteq> [] \<and> settle_of (last es) = None"
proof (induction ts arbitrary: s)
  case Nil
  have "trace (drop_loop h f [] s) = trace s @ [Log dragdrop_failed []]"
    by simp
  moreover have "tidy 2 [Log dragdrop_failed []]"
    by (simp add: tidy_def dragdrop_failed_def found_indicator_def calm_def)
  ultimately show ?case by (intro exI [of _ "[Log dragdrop_failed []]"]) simp
next
  case (Cons t ts)
  define p where "p = [Dispatch t (DragEnter f), Delay 100, Dispatch t (DragOver f), Delay 100,
      Dispatch t (DropEvent f), Delay 500]"
  define s3 where "s3 = delay h 500 (perform h (Dispatch t (DropEvent f))
      (delay h 100 (perform h (Dispatch t (DragOver f))
        (delay h 100 (perform h (Dispatch t (DragEnter f)) s)))))"
  have t3: "trace s3 = trace s @ p"
    by (simp add: s3_def p_def)
  obtain b s4 where chk: "checkForUploadedImage h s3 = (b, s4)"
    by (cases "checkForUploadedImage h s3")
  have step: "drop_loop h f (t # ts) s = (if b then s4 else drop_loop h f ts s4)"
    using chk by (simp add: s3_def Let_def)
  have pp: "list_all (\<lambda>st. 2 \<le> rank st \<and> rank st \<le> 2) (attempts p)"
      "sorted (map rank (attempts p))" "\<not> list_ex is_found p" "settled p"
      "p = [] \<or> settle_of (last p) = None" "list_all calm p"
    by (simp_all add: p_def calm_def)
  show ?case
  proof (cases b)
    case True
    then obtain sel where s4: "s4 = console_log found_indicator [Str sel] s3"
      using checkForUploadedImage_cases [OF chk] by blast
    have "tidy 2 [Log found_indicator [Str sel]]"
      by (simp add: tidy_def calm_def)
    then have "tidy 2 (p @ [Log found_indicator [Str sel]])"
      using pp by (intro tidy_prepend [where m = 2 and m' = 2]) simp_all
    moreover have "trace (drop_loop h f (t # ts) s) = trace s @ (p @ [Log found_indicator [Str sel]])"
      using step True s4 t3 by simp
    ultimately show ?thesis
      by (intro exI [of _ "p @ [Log found_indicator [Str sel]]"]) simp
  next
    case False
    then have s4: "s4 = s3"
      using checkForUploadedImage_cases [OF chk] by blast
    obtain es where es: "trace (drop_loop h f ts s3) = trace s3 @ es" "tidy 2 es"
        "es \<noteq> []" "settle_of (last es) = None"
      using Cons.IH [of s3] by blast
    have "tidy 2 (p @ es)"
      using es(2) pp by (intro tidy_prepend [where m = 2 and m' = 2]) simp_all
    moreover have "trace (drop_loop h f (t # ts) s) = trace s @ (p @ es)"
      using step False s4 t3 es(1) by simp
    ultimately show ?thesis
      using es(3,4) by (intro exI [of _ "p @ es"]) simp
  qed
qed

lemma dragDropMethod_trace:
  "\<exists>es. trace (dragDropMethod h f s) = trace s @ es \<and> tidy 2 es \<and> ends_well es"
proof -
  obtain es where es: "trace (simulateDragDropUpload h f s) = trace s @ es" "tidy 2 es"
      "es \<noteq> []" "settle_of (last es) = None"
    using drop_loop_trace [of h f "dropTargets (page h s)" s]
    by (auto simp: simulateDragDropUpload_def)
  define s1 where "s1 = delay h 2000 (simulateDragDropUpload h f s)"
  obtain b s2 where chk: "checkForUploadedImage h s1 = (b, s2)"
    by (cases "checkForUploadedImage h s1")
  have t1: "trace s1 = trace s @ es @ [Delay 2000]"
    using es(1) by (simp add: s1_def)
  have step: "dragDropMethod h f s = (if b then s2 else console_log upload_unconfirmed [] s2)"
    using chk by (simp add: dragDropMethod_def s1_def)
  show ?thesis
  proof (cases b)
    case True
    then obtain sel where s2: "s2 = console_log found_indicator [Str sel] s1"
      using checkForUploadedImage_cases [OF chk] by blast
    have "tidy 2 (es @ [Delay 2000, Log found_indicator [Str sel]])"
      using es(2,3,4) by (intro tidy_tail) (simp_all add: calm_def)
    moreover have "trace (dragDropMethod h f s) =
        trace s @ (es @ [Delay 2000, Log found_indicator [Str sel]])"
      using step True s2 t1 by simp
    moreover have "ends_well (es @ [Delay 2000, Log found_indicator [Str sel]])"
      by (simp add: ends_well_def)
    ultimately show ?thesis by blast
  next
    case False
    then have s2: "s2 = s1"
      using checkForUploadedImage_cases [OF chk] by blast
    have "tidy 2 (es @ [Delay 2000, Log upload_unconfirmed []])"
      using es(2,3,4) by (intro tidy_tail) (simp_all add: calm_def)
    moreover have "trace (dragDropMethod h f s) =
        trace s @ (es @ [Delay 2000, Log upload_unconfirmed []])"
      using step False s2 t1 by simp
    moreover have "ends_well (es @ [Delay 2000, Log upload_unconfirmed []])"
      by (simp add: ends_well_def)
    ultimately show ?thesis by blast
  qed
qed


lemma clipboardMethod_trace:
  "\<exists>es. trace (clipboardMethod h f s) = trace s @ es \<and> tidy 1 es \<and> ends_well es"
proof (cases "findInputArea (page h s)")
  case None
  define m where "m = Log ''Clipboard method failed:'' [Str ''No input area found'']"
  obtain es where es: "trace (dragDropMethod h f (console_log ''Clipboard method failed:''
        [Str ''No input area found''] s)) = trace s @ [m] @ es" "tidy 2 es" "ends_well es"
    using dragDropMethod_trace [of h f "console_log ''Clipboard method failed:''
        [Str ''No input area found''] s"]
    by (auto simp: m_def)
  have "tidy 1 ([m] @ es)"
    using es(2) by (intro tidy_prepend [where m = 2 and m' = 1])
      (simp_all add: m_def found_indicator_def calm_def)
  moreover have "trace (clipboardMethod h f s) = trace s @ ([m] @ es)"
    using None es(1) by (simp add: clipboardMethod_def pasteImageFromClipboard_def)
  moreover have "ends_well ([m] @ es)"
    using es(3) by (simp add: ends_well_def)
  ultimately show ?thesis by blast
next
  case (Some a)
  define p where "p = [Focus a, Dispatch a (PasteEvent f), Delay 2000]"
  define s1 where "s1 = delay h 2000 (perform h (Dispatch a (PasteEvent f)) (perform h (Focus a) s))"
  have t1: "trace s1 = trace s @ p"
    by (simp add: s1_def p_def)
  obtain b s2 where chk: "checkForUploadedImage h s1 = (b, s2)"
    by (cases "checkForUploadedImage h s1")
  have step: "clipboardMethod h f s = (if b then s2 else dragDropMethod h f s2)"
    using Some chk by (simp add: clipboardMethod_def pasteImageFromClipboard_def s1_def)
  have pp: "list_all (\<lambda>st. 1 \<le> rank st \<and> rank st \<le> 2) (attempts p)"
      "sorted (map rank (attempts p))" "\<not> list_ex is_found p" "settled p"
      "p = [] \<or> settle_of (last p) = None" "list_all calm p"
    by (simp_all add: p_def calm_def)
  show ?thesis
  proof (cases b)
    case True
    then obtain sel where s2: "s2 = console_log found_indicator [Str sel] s1"
      using checkForUploadedImage_cases [OF chk] by blast
    have "tidy 2 [Log found_indicator [Str sel]]"
      by (simp add: tidy_def calm_def)
    then have "tidy 1 (p @ [Log found_indicator [Str sel]])"
      using pp by (intro tidy_prepend [where m = 2 and m' = 1]) simp_all
    moreover have "trace (clipboardMethod h f s) = trace s @ (p @ [Log found_indicator [Str sel]])"
      using step True s2 t1 by simp
    moreover have "ends_well (p @ [Log found_indicator [Str sel]])"
      by (simp add: ends_well_def)
    ultimately show ?thesis by blast
  next
    case False
    then have s2: "s2 = s1"
      using checkForUploadedImage_cases [OF chk] by blast
    obtain es where es: "trace (dragDropMethod h f s1) = trace s1 @ es" "tidy 2 es" "ends_well es"
      using dragDropMethod_trace [of h f s1] by blast
    have "tidy 1 (p @ es)"
      using es(2) pp by (intro tidy_prepend [where m = 2 and m' = 1]) simp_all
    moreover have "trace (clipboardMethod h f s) = trace s @ (p @ es)"
      using step False s2 t1 es(1) by simp
    moreover have "ends_well (p @ es)"
      using es(3) by (simp add: ends_well_def)
    ultimately show ?thesis by blast
  qed
qed

lemma clickAddButton_trace:
  "\<exists>p. trace (clickAddButton h s) = trace s @ p \<and> attempts p = [] \<and> \<not> list_ex is_found p
       \<and> settled p \<and> (p = [] \<or> settle_of (last p) = None) \<and> list_all calm p"
proof (cases "find_add_button (page h s) addButtonSelectors")
  case None
  then have "trace (clickAddButton h s) = trace s @ []"
    by (simp add: clickAddButton_def)
  then show ?thesis by (intro exI [of _ "[]"]) simp
next
  case (Some b)
  then have "trace (clickAddButton h s) = trace s @ [Click b, Delay 800]"
    by (simp add: clickAddButton_def)
  then show ?thesis by (intro exI [of _ "[Click b, Delay 800]"]) (simp add: calm_def)
qed

lemma uploadImageToGemini_trace:
  "\<exists>es. trace (uploadImageToGemini h pf bl url s) = trace s @ es \<and> tidy 0 es \<and> ends_well es"
proof -
  define f where "f = make_file pf bl url"
  define s1 where "s1 = clickAddButton h s"
  obtain pa where pa: "trace s1 = trace s @ pa" "attempts pa = []" "\<not> list_ex is_found pa"
      "settled pa" "pa = [] \<or> settle_of (last pa) = None" "list_all calm pa"
    using clickAddButton_trace [of h s] by (auto simp: s1_def)
  show ?thesis
  proof (cases "querySelector (page h s1) file_selector")
    case None
    obtain es where es: "trace (clipboardMethod h f s1) = trace s1 @ es" "tidy 1 es" "ends_well es"
      using clipboardMethod_trace [of h f s1] by blast
    have "tidy 0 (pa @ es)"
      using es(2) pa by (intro tidy_prepend [where m = 1 and m' = 0]) simp_all
    moreover have "trace (uploadImageToGemini h pf bl url s) = trace s @ (pa @ es)"
      using None es(1) pa(1)
      by (simp add: uploadImageToGemini_def Let_def f_def [symmetric] s1_def [symmetric])
    moreover have "ends_well (pa @ es)"
      using es(3) by (simp add: ends_well_def)
    ultimately show ?thesis by blast
  next
    case (Some fi)
    define p where "p = pa @ [SetFiles fi f, Dispatch fi ChangeEvent, Dispatch fi InputEvent,
        Delay 2000]"
    define s2 where "s2 = fileInputAttempt h f fi s1"
    have t2: "trace s2 = trace s @ p"
      using pa(1) by (simp add: s2_def p_def fileInputAttempt_def)
    obtain b s3 where chk: "checkForUploadedImage h s2 = (b, s3)"
      by (cases "checkForUploadedImage h s2")
    have step: "uploadImageToGemini h pf bl url s = (if b then s3 else clipboardMethod h f s3)"
      using Some chk
      by (simp add: uploadImageToGemini_def Let_def f_def [symmetric] s1_def [symmetric]
          s2_def [symmetric])
    have pp: "list_all (\<lambda>st. 0 \<le> rank st \<and> rank st \<le> 1) (attempts p)"
        "sorted (map rank (attempts p))" "\<not> list_ex is_found p" "settled p"
        "p = [] \<or> settle_of (last p) = None" "list_all calm p"
      using pa(2,3,4,5,6) by (simp_all add: p_def settled_append calm_def)
    show ?thesis
    proof (cases b)
      case True
      then obtain sel where s3: "s3 = console_log found_indicator [Str sel] s2"
        using checkForUploadedImage_cases [OF chk] by blast
      have "tidy 1 [Log found_indicator [Str sel]]"
        by (simp add: tidy_def calm_def)
      then have "tidy 0 (p @ [Log found_indicator [Str sel]])"
        using pp by (intro tidy_prepend [where m = 1 and m' = 0]) simp_all
      moreover have "trace (uploadImageToGemini h pf bl url s) =
          trace s @ (p @ [Log found_indicator [Str sel]])"
        using step True s3 t2 by simp
      moreover have "ends_well (p @ [Log found_indicator [Str sel]])"
        by (simp add: ends_well_def)
      ultimately show ?thesis by blast
    next
      case False
      then have s3: "s3 = s2"
        using checkForUploadedImage_cases [OF chk] by blast
      obtain es where es: "trace (clipboardMethod h f s2) = trace s2 @ es" "tidy 1 es"
          "ends_well es"
        using clipboardMethod_trace [of h f s2] by blast
      have "tidy 0 (p @ es)"
        using es(2) pp by (intro tidy_prepend [where m = 1 and m' = 0]) simp_all
      moreover have "trace (uploadImageToGemini h pf bl url s) = trace s @ (p @ es)"
        using step False s3 t2 es(1) by simp
      moreover have "ends_well (p @ es)"
        using es(3) by (simp add: ends_well_def)
      ultimately show ?thesis by blast
    qed
  qed
qed





















section \<open>The upload on the chat pages\<close>











section \<open>The run before the upload\<close>

lemma clicks_Nil [simp]: "clicks [] = []"
  by (simp add: clicks_def map_filter_simps)

lemma clicks_Cons [simp]:
  "clicks (e # es) = (case clicked e of None \<Rightarrow> clicks es | Some r \<Rightarrow> r # clicks es)"
  by (simp add: clicks_def map_filter_simps split: option.splits)

lemma clicks_append [simp]: "clicks (xs @ ys) = clicks xs @ clicks ys"
  by (induction xs) (simp_all split: option.splits)

lemma inserted_Nil [simp]: "inserted [] = []"
  by (simp add: inserted_def map_filter_simps)

lemma inserted_Cons [simp]:
  "inserted (e # es) = (case inserted_char e of None \<Rightarrow> inserted es | Some c \<Rightarrow> c # inserted es)"
  by (simp add: inserted_def map_filter_simps split: option.splits)

lemma inserted_append [simp]: "inserted (xs @ ys) = inserted xs @ inserted ys"
  by (induction xs) (simp_all split: option.splits)

lemma passive_quiet: "is_passive e \<Longrightarrow> quiet el e"
  by (cases e) simp_all

lemma passive_all_quiet: "list_all is_passive es \<Longrightarrow> list_all (quiet el) es"
  by (auto simp: list_all_iff passive_quiet)

lemma passive_inserted: "list_all is_passive es \<Longrightarrow> inserted es = []"
proof (induction es)
  case Nil
  show ?case by simp
next
  case (Cons e es)
  then show ?case by (cases e) simp_all
qed

lemma quiet_calm: "quiet el e \<Longrightarrow> calm e"
  by (induction el e rule: quiet.induct) (simp_all add: calm_def)

lemma quiet_all_calm: "list_all (quiet el) es \<Longrightarrow> list_all calm es"
  by (auto simp: list_all_iff quiet_calm)

lemma quiet_no_attempt: "quiet el e \<Longrightarrow> strategy_of e = None"
  by (induction el e rule: quiet.induct) simp_all

lemma quiet_attempts: "list_all (quiet el) es \<Longrightarrow> attempts es = []"
  by (induction es) (auto dest: quiet_no_attempt)

lemma quiet_clicked: "quiet el e \<Longrightarrow> clicked e = None \<or> clicked e = Some el"
  by (induction el e rule: quiet.induct) simp_all

lemma quiet_clicks: "list_all (quiet el) es \<Longrightarrow> set (clicks es) \<subseteq> {el}"
proof (induction es)
  case Nil
  show ?case by simp
next
  case (Cons e es)
  then show ?case using quiet_clicked [of el e] by auto
qed

lemma passive_clicks: "list_all is_passive es \<Longrightarrow> clicks es = []"
proof (induction es)
  case Nil
  show ?case by simp
next
  case (Cons e es)
  then show ?case by (cases e) simp_all
qed

lemma passive_outcome: "list_all is_passive es \<Longrightarrow> filter is_outcome es = []"
proof (induction es)
  case Nil
  show ?case by simp
next
  case (Cons e es)
  then show ?case by (cases e) simp_all
qed

lemma calm_outcome: "list_all calm es \<Longrightarrow> filter is_outcome es = []"
  by (induction es) (simp_all add: calm_def)

lemma calm_final: "list_all calm es \<Longrightarrow> filter is_final_overlay es = []"
  by (induction es) (simp_all add: calm_def)

lemma poll_loop_passive:
  "\<exists>es. trace (snd (poll_loop h t s)) = trace s @ es \<and> list_all is_passive es"
proof (induction h t s rule: poll_loop.induct)
  case (1 h startTime s)
  show ?case
  proof (cases "now s - startTime < MAX_WAIT_TIME")
    case False
    then have "trace (snd (poll_loop h startTime s)) = trace s @ timeout_diagnostics (page h s)"
      by (simp add: poll_loop.simps [of h startTime s])
    moreover have "list_all is_passive (timeout_diagnostics (page h s))"
      by (simp add: timeout_diagnostics_def)
    ultimately show ?thesis by blast
  next
    case True
    show ?thesis
    proof (cases "poll_once (page h s)")
      case (Some el)
      then have "trace (snd (poll_loop h startTime s)) = trace s @ []"
        using True by (simp add: poll_loop.simps [of h startTime s])
      then show ?thesis by (intro exI [of _ "[]"]) simp
    next
      case None
      then obtain es where es:
        "trace (snd (poll_loop h startTime (delay h POLL_INTERVAL s)))
           = trace (delay h POLL_INTERVAL s) @ es" "list_all is_passive es"
        using "1.IH" [OF True] by blast
      have "poll_loop h startTime s = poll_loop h startTime (delay h POLL_INTERVAL s)"
        using True None by (simp add: poll_loop.simps [of h startTime s])
      then have "trace (snd (poll_loop h startTime s)) = trace s @ (Delay POLL_INTERVAL # es)"
        using es(1) by simp
      moreover have "list_all is_passive (Delay POLL_INTERVAL # es)"
        using es(2) by simp
      ultimately show ?thesis by blast
    qed
  qed
qed

lemma waitForGeminiReady_passive:
  "\<exists>es. trace (snd (waitForGeminiReady h s)) = trace s @ es \<and> list_all is_passive es"
proof -
  obtain es where es: "trace (snd (poll_loop h (now s) (awaitDocument h s)))
      = trace (awaitDocument h s) @ es" "list_all is_passive es"
    using poll_loop_passive by blast
  obtain p where p: "trace (awaitDocument h s) = trace s @ p" "list_all is_passive p"
  proof (cases "readyState (page h s) \<noteq> ''complete''")
    case True
    then have "trace (awaitDocument h s) = trace s @ [AwaitLoad, Delay 2000]"
      by (simp add: awaitDocument_def)
    then show ?thesis using that [of "[AwaitLoad, Delay 2000]"] by simp
  next
    case False
    then have "trace (awaitDocument h s) = trace s @ [Delay 2000]"
      by (simp add: awaitDocument_def)
    then show ?thesis using that [of "[Delay 2000]"] by simp
  qed
  have "trace (snd (waitForGeminiReady h s)) = trace s @ (p @ es)"
    using es(1) p(1) by (simp add: waitForGeminiReady_def)
  moreover have "list_all is_passive (p @ es)"
    using es(2) p(2) by simp
  ultimately show ?thesis by blast
qed

lemma waitForGeminiReady_error:
  "waitForGeminiReady h s = (Inl e, s') \<Longrightarrow> e = Error timeout_message"
  using poll_loop_outcome [of h "now s" "awaitDocument h s" "Inl e" s']
  by (simp add: waitForGeminiReady_def)

lemma quiet_keystrokes: "list_all (quiet el) (keystrokes el str)"
  by (induction str) (simp_all add: keystrokes_def)

lemma quiet_typed [simp]: "list_all (quiet el) (typed el str)"
  by (simp add: typed_def quiet_keystrokes)

lemma inserted_keystrokes: "inserted (keystrokes el str) = str"
  by (induction str) (simp_all add: keystrokes_def)

lemma inserted_typed [simp]: "inserted (typed el str) = str"
  by (simp add: typed_def inserted_keystrokes)

lemma quiet_waitForDropdown [simp]:
  "list_all (quiet el) (since s (snd (waitForDropdown h m s)))"
  by (rule passive_all_quiet) simp

lemma inserted_waitForDropdown [simp]:
  "inserted (since s (snd (waitForDropdown h m s))) = []"
  by (rule passive_inserted) simp

lemma typeSynthIDQuery_quiet:
  "\<exists>es. trace (snd (typeSynthIDQuery h (Some el) s)) = trace s @ es
        \<and> fst (typeSynthIDQuery h (Some el) s) = Inr ()
        \<and> list_all (quiet el) es \<and> inserted es = query_text"
  by (simp add: typeSynthIDQuery_def mention_entry_def mention_retry_def Let_def pressTab_def
      question_def query_text_def)


lemma fetchImage_quiet:
  "\<exists>es. trace (snd (fetchImage h pf url s)) = trace s @ es
        \<and> list_all (quiet el) es \<and> inserted es = []"
  by (simp add: fetchImage_def backgroundAttempt_def directAttempt_def
      fetchImageViaBackground_def Let_def
      split: option.splits sum.splits fetch_result.splits fetch_reply.splits prod.splits
        response.splits)

lemma checkForUploadedImage_calm:
  "\<exists>es. trace (snd (checkForUploadedImage h s)) = trace s @ es \<and> list_all calm es"
  by (simp add: checkForUploadedImage_def calm_def split: option.splits)

text \<open>The part of prepare before the fetch.\<close>

lemma prepare_timeout:
  assumes "waitForGeminiReady h s = (Inl e, s1)"
  shows "prepare h pf p s = (Inl (Error timeout_message), s1)
       \<and> (\<exists>es. trace s1 = trace s @ es \<and> list_all is_passive es)"
proof -
  have "e = Error timeout_message"
    using assms by (rule waitForGeminiReady_error)
  moreover have "\<exists>es. trace s1 = trace s @ es \<and> list_all is_passive es"
    using waitForGeminiReady_passive [of h s] assms by simp
  ultimately show ?thesis
    using assms by (simp add: prepare_def)
qed

lemma prepare_download_failure:
  assumes r: "waitForGeminiReady h s = (Inr el, s1)"
    and bg: "via_background pf (imageUrl p) = None"
    and pg: "via_page pf (imageUrl p) = None"
  shows "\<exists>s3 es. prepare h pf p s = (Inl (Error download_message), s3)
       \<and> trace s3 = trace s @ es \<and> list_all (quiet el) es \<and> inserted es = query_text"
proof -
  obtain e1 where e1: "trace s1 = trace s @ e1" "list_all is_passive e1"
    using waitForGeminiReady_passive [of h s] r by auto
  define s1' where "s1' = showTypingOverlay h (hideLoadingOverlay h (delay h 1000 s1))"
  define o1 where "o1 = [Delay 1000, RemoveAllOverlays, RemoveAllOverlays,
      Show (Working ''Getting ready...'' ''Preparing to check your image'')]"
  have t1': "trace s1' = trace s1 @ o1"
    by (simp add: s1'_def o1_def showTypingOverlay_def hideLoadingOverlay_def showOverlay_def
        removeAllOverlays_def)
  obtain s2 where ty: "typeSynthIDQuery h (Some el) s1' = (Inr (), s2)"
    using typeSynthIDQuery_quiet [of h el s1'] by (cases "typeSynthIDQuery h (Some el) s1'") auto
  obtain e2 where e2: "trace s2 = trace s1' @ e2" "list_all (quiet el) e2"
      "inserted e2 = query_text"
    using typeSynthIDQuery_quiet [of h el s1'] ty by auto
  define s2' where "s2' = showUploadingOverlay h (hideTypingOverlay h (delay h 500 s2))"
  define o2 where "o2 = [Delay 500, RemoveAllOverlays,
      Show (Working ''Uploading your image...'' ''This might take a few seconds'')]"
  have t2': "trace s2' = trace s2 @ o2"
    by (simp add: s2'_def o2_def showUploadingOverlay_def hideTypingOverlay_def showOverlay_def
        removeAllOverlays_def)
  obtain r3 s3 where fe: "fetchImage h pf (imageUrl p) s2' = (r3, s3)"
    by (cases "fetchImage h pf (imageUrl p) s2'")
  have r3: "r3 = Inl (Error download_message)"
    using fetchImage_result [of h pf "imageUrl p" s2'] fe bg pg by simp
  obtain e3 where e3: "trace s3 = trace s2' @ e3" "list_all (quiet el) e3" "inserted e3 = []"
    using fetchImage_quiet [of h pf "imageUrl p" s2' el] fe by auto
  have pr: "prepare h pf p s = (Inl (Error download_message), s3)"
    using r ty fe r3
    by (simp add: prepare_def s1'_def [symmetric] s2'_def [symmetric])
  have tr: "trace s3 = trace s @ (e1 @ o1 @ e2 @ o2 @ e3)"
    using e1(1) t1' e2(1) t2' e3(1) by simp
  have q: "list_all (quiet el) (e1 @ o1 @ e2 @ o2 @ e3)"
    using passive_all_quiet [OF e1(2), of el] e2(2) e3(2) by (simp add: o1_def o2_def)
  have i: "inserted (e1 @ o1 @ e2 @ o2 @ e3) = query_text"
    using passive_inserted [OF e1(2)] e2(3) e3(3) by (simp add: o1_def o2_def)
  show ?thesis using pr tr q i by blast
qed

lemma getPendingImage_trace:
  "getPendingImage h pf s = (r, s1) \<Longrightarrow>
   trace s1 = trace s @ [SendMessage GET_PENDING_IMAGE]"
  by (auto simp: getPendingImage_def Let_def split: option.splits prod.splits response.splits)

lemma main_download_failure:
  assumes pick: "getPendingImage h pf s = (Some p, s1)"
    and fresh: "\<not> now s1 - timestamp p > 30000"
    and bg: "via_background pf (imageUrl p) = None"
    and pg: "via_page pf (imageUrl p) = None"
  shows "(\<forall>el. fst (waitForGeminiReady h (showLoadingOverlay h s1)) = Inr el \<longrightarrow>
            filter is_outcome (since s (main h pf s)) = [SendMessage (CHECK_ERROR download_message)]
            \<and> set (clicks (since s (main h pf s))) \<subseteq> {el}
            \<and> inserted (since s (main h pf s)) = query_text)
       \<and> (\<forall>e. fst (waitForGeminiReady h (showLoadingOverlay h s1)) = Inl e \<longrightarrow>
            filter is_outcome (since s (main h pf s)) = [SendMessage (CHECK_ERROR timeout_message)]
            \<and> clicks (since s (main h pf s)) = []
            \<and> inserted (since s (main h pf s)) = [])
       \<and> attempts (since s (main h pf s)) = []"
proof -
  define s2 where "s2 = showLoadingOverlay h s1"
  define o0 where "o0 = [SendMessage GET_PENDING_IMAGE, RemoveAllOverlays,
      Show (Working ''Getting ready...'' ''Preparing to check your image'')]"
  have t2: "trace s2 = trace s @ o0"
    using getPendingImage_trace [OF pick]
    by (simp add: s2_def o0_def showLoadingOverlay_def showTypingOverlay_def showOverlay_def
        removeAllOverlays_def)
  obtain r2 s3 where w: "waitForGeminiReady h s2 = (r2, s3)"
    by (cases "waitForGeminiReady h s2")
  show ?thesis
  proof (cases r2)
    case (Inl e)
    obtain es where es: "prepare h pf p s2 = (Inl (Error timeout_message), s3)"
        "trace s3 = trace s2 @ es" "list_all is_passive es"
      using prepare_timeout [of h s2 e s3 pf p] w Inl by auto
    have m: "main h pf s = on_error h (Error timeout_message) s3"
      using pick fresh es(1) by (simp add: main_def s2_def)
    have tr: "since s (main h pf s) = o0 @ es @ [RemoveAllOverlays, RemoveAllOverlays,
        Show (ErrorOverlay timeout_message), SendMessage (CHECK_ERROR timeout_message)]"
      by (rule since_eq)
        (simp add: m on_error_def showErrorMessage_def hideLoadingOverlay_def showOverlay_def
          removeAllOverlays_def es(2) t2)
    show ?thesis
      using w Inl passive_outcome [OF es(3)] passive_clicks [OF es(3)]
        passive_inserted [OF es(3)] quiet_attempts [OF passive_all_quiet [OF es(3)]]
      by (simp add: tr s2_def [symmetric] o0_def)
  next
    case (Inr el)
    obtain s4 es where es: "prepare h pf p s2 = (Inl (Error download_message), s4)"
        "trace s4 = trace s2 @ es" "list_all (quiet el) es" "inserted es = query_text"
      using prepare_download_failure [of h s2 el s3 pf p] w Inr bg pg by auto
    have m: "main h pf s = on_error h (Error download_message) s4"
      using pick fresh es(1) by (simp add: main_def s2_def)
    have tr: "since s (main h pf s) = o0 @ es @ [RemoveAllOverlays, RemoveAllOverlays,
        Show (ErrorOverlay download_message), SendMessage (CHECK_ERROR download_message)]"
      by (rule since_eq)
        (simp add: m on_error_def showErrorMessage_def hideLoadingOverlay_def showOverlay_def
          removeAllOverlays_def es(2) t2)
    show ?thesis
      using w Inr calm_outcome [OF quiet_all_calm [OF es(3)]] quiet_clicks [OF es(3)]
        es(4) quiet_attempts [OF es(3)]
      by (simp add: tr s2_def [symmetric] o0_def)
  qed
qed


lemma uploadImageToGemini_calm:
  "\<exists>es. trace (uploadImageToGemini h pf bl url s) = trace s @ es \<and> list_all calm es"
  using uploadImageToGemini_trace [of h pf bl url s] by (auto simp: tidy_def)

lemma prepare_calm:
  "\<exists>es. trace (snd (prepare h pf p s)) = trace s @ es \<and> list_all calm es"
proof -
  obtain r1 s1 where w: "waitForGeminiReady h s = (r1, s1)"
    by (cases "waitForGeminiReady h s")
  obtain e1 where e1: "trace s1 = trace s @ e1" "list_all is_passive e1"
    using waitForGeminiReady_passive [of h s] w by auto
  have c1: "list_all calm e1"
    using e1(2) by (intro quiet_all_calm [of 0] passive_all_quiet)
  show ?thesis
  proof (cases r1)
    case (Inl e)
    then have "snd (prepare h pf p s) = s1"
      using w by (simp add: prepare_def)
    then show ?thesis using e1(1) c1 by auto
  next
    case (Inr el)
    define s1' where "s1' = showTypingOverlay h (hideLoadingOverlay h (delay h 1000 s1))"
    define o1 where "o1 = [Delay 1000, RemoveAllOverlays, RemoveAllOverlays,
        Show (Working ''Getting ready...'' ''Preparing to check your image'')]"
    have t1': "trace s1' = trace s1 @ o1"
      by (simp add: s1'_def o1_def showTypingOverlay_def hideLoadingOverlay_def showOverlay_def
          removeAllOverlays_def)
    obtain s2 where ty: "typeSynthIDQuery h (Some el) s1' = (Inr (), s2)"
      using typeSynthIDQuery_quiet [of h el s1'] by (cases "typeSynthIDQuery h (Some el) s1'") auto
    obtain e2 where e2: "trace s2 = trace s1' @ e2" "list_all (quiet el) e2"
      using typeSynthIDQuery_quiet [of h el s1'] ty by auto
    define s2' where "s2' = showUploadingOverlay h (hideTypingOverlay h (delay h 500 s2))"
    define o2 where "o2 = [Delay 500, RemoveAllOverlays,
        Show (Working ''Uploading your image...'' ''This might take a few seconds'')]"
    have t2': "trace s2' = trace s2 @ o2"
      by (simp add: s2'_def o2_def showUploadingOverlay_def hideTypingOverlay_def showOverlay_def
          removeAllOverlays_def)
    obtain r3 s3 where fe: "fetchImage h pf (imageUrl p) s2' = (r3, s3)"
      by (cases "fetchImage h pf (imageUrl p) s2'")
    obtain e3 where e3: "trace s3 = trace s2' @ e3" "list_all (quiet el) e3"
      using fetchImage_quiet [of h pf "imageUrl p" s2' el] fe by auto
    have tr3: "trace s3 = trace s @ (e1 @ o1 @ e2 @ o2 @ e3)"
      using e1(1) t1' e2(1) t2' e3(1) by simp
    have c3: "list_all calm (e1 @ o1 @ e2 @ o2 @ e3)"
      using c1 quiet_all_calm [OF e2(2)] quiet_all_calm [OF e3(2)]
      by (simp add: o1_def o2_def calm_def)
    show ?thesis
    proof (cases r3)
      case (Inl e)
      then have "snd (prepare h pf p s) = s3"
        using w Inr ty fe by (simp add: prepare_def s1'_def [symmetric] s2'_def [symmetric])
      then show ?thesis using tr3 c3 by auto
    next
      case (Inr imageBlob)
      define s4 where "s4 = delay h 2000 (uploadImageToGemini h pf imageBlob (imageUrl p) s3)"
      obtain e4 where e4: "trace (uploadImageToGemini h pf imageBlob (imageUrl p) s3) = trace s3 @ e4"
          "list_all calm e4"
        using uploadImageToGemini_calm by blast
      obtain b s5 where chk: "checkForUploadedImage h s4 = (b, s5)"
        by (cases "checkForUploadedImage h s4")
      obtain e5 where e5: "trace s5 = trace s4 @ e5" "list_all calm e5"
        using checkForUploadedImage_calm [of h s4] chk by auto
      define s6 where "s6 = (if \<not> b then console_log ''WARNING: Image may not have uploaded.'' [] s5
          else s5)"
      obtain e6 where e6: "trace s6 = trace s5 @ e6" "list_all calm e6"
      proof (cases b)
        case True
        then have "trace s6 = trace s5 @ []" by (simp add: s6_def)
        then show ?thesis using that [of "[]"] by simp
      next
        case False
        then have "trace s6 = trace s5 @ [Log ''WARNING: Image may not have uploaded.'' []]"
          by (simp add: s6_def)
        then show ?thesis
          using that [of "[Log ''WARNING: Image may not have uploaded.'' []]"]
          by (simp add: calm_def)
      qed
      define o3 where "o3 = [RemoveAllOverlays,
          Show (Working ''Starting the check...'' ''Sending to Google AI''), Delay 800]"
      have pr: "snd (prepare h pf p s) = delay h 800 (showSendingOverlay h (hideUploadingOverlay h s6))"
        using w \<open>r1 = Inr el\<close> ty fe Inr chk
        by (simp add: prepare_def s1'_def [symmetric] s2'_def [symmetric] s4_def [symmetric]
            s6_def [symmetric] Let_def)
      have "trace (snd (prepare h pf p s)) =
          trace s @ ((e1 @ o1 @ e2 @ o2 @ e3) @ e4 @ [Delay 2000] @ e5 @ e6 @ o3)"
        using tr3 e4(1) e5(1) e6(1)
        by (simp add: pr s4_def o3_def showSendingOverlay_def hideUploadingOverlay_def
            showOverlay_def removeAllOverlays_def)
      moreover have "list_all calm ((e1 @ o1 @ e2 @ o2 @ e3) @ e4 @ [Delay 2000] @ e5 @ e6 @ o3)"
        using c3 e4(2) e5(2) e6(2) by (simp add: o3_def calm_def)
      ultimately show ?thesis by blast
    qed
  qed
qed

lemma clickSendButton_miss:
  "fst (clickSendButton h s) = (\<not> no_send_control (page h s))"
  by (simp add: clickSendButton_def no_send_control_def Let_def split: option.splits)

lemma clickSendButton_false:
  "\<not> fst (clickSendButton h s) \<Longrightarrow> snd (clickSendButton h s) = console_log send_not_found [] s"
  by (simp add: clickSendButton_def Let_def split: option.splits)

lemma main_send_miss:
  assumes pick: "getPendingImage h pf s = (Some p, s1)"
    and fresh: "\<not> now s1 - timestamp p > 30000"
    and prep: "prepare h pf p (showLoadingOverlay h s1) = (Inr (), s2)"
    and miss: "no_send_control (page h s2)"
  shows "clickSendButton h s2 = (False, console_log send_not_found [] s2)
       \<and> since s2 (main h pf s) =
           [Log send_not_found [], RemoveAllOverlays, RemoveAllOverlays, Show ManualSend,
            SendMessage (CHECK_COMPLETE True)]
       \<and> filter is_outcome (since s (main h pf s)) = [SendMessage (CHECK_COMPLETE True)]
       \<and> filter is_final_overlay (since s (main h pf s)) = [Show ManualSend]"
proof -
  have c: "clickSendButton h s2 = (False, console_log send_not_found [] s2)"
    using clickSendButton_miss [of h s2] clickSendButton_false [of h s2] miss
    by (cases "clickSendButton h s2") simp
  define tl where "tl = [Log send_not_found [], RemoveAllOverlays, RemoveAllOverlays,
      Show ManualSend, SendMessage (CHECK_COMPLETE True)]"
  have m: "main h pf s = send_step h s2"
    using pick fresh prep by (simp add: main_def)
  have ts: "trace (main h pf s) = trace s2 @ tl"
    by (simp add: m send_step_def c hideSendingOverlay_def showManualSendPrompt_def
        showOverlay_def removeAllOverlays_def tl_def)
  define o0 where "o0 = [SendMessage GET_PENDING_IMAGE, RemoveAllOverlays,
      Show (Working ''Getting ready...'' ''Preparing to check your image'')]"
  have t0: "trace (showLoadingOverlay h s1) = trace s @ o0"
    using getPendingImage_trace [OF pick]
    by (simp add: o0_def showLoadingOverlay_def showTypingOverlay_def showOverlay_def
        removeAllOverlays_def)
  obtain es where es: "trace s2 = trace (showLoadingOverlay h s1) @ es" "list_all calm es"
    using prepare_calm [of h pf p "showLoadingOverlay h s1"] prep by auto
  have a: "since s2 (main h pf s) = tl"
    using ts by (rule since_eq)
  have b: "since s (main h pf s) = o0 @ es @ tl"
    by (rule since_eq) (simp add: ts es(1) t0)
  show ?thesis
    using c a calm_outcome [OF es(2)] calm_final [OF es(2)]
    by (simp add: b) (simp add: tl_def o0_def)
qed




section \<open>Runs on the chat pages\<close>

lemma ready_static:
  assumes "poll_once d = Some el"
  shows "waitForGeminiReady (static_host d) s = (Inr el, awaitDocument (static_host d) s)"
proof -
  have "now (awaitDocument (static_host d) s) - now s < MAX_WAIT_TIME"
    using awaitDocument_now_static [of d s] by (simp add: MAX_WAIT_TIME_def)
  then show ?thesis
    using assms
    by (simp add: waitForGeminiReady_def
        poll_loop.simps [of "static_host d" "now s" "awaitDocument (static_host d) s"])
qed

lemma prepare_ok:
  assumes r: "waitForGeminiReady h s = (Inr el, s1)"
    and bg: "via_background pf (imageUrl p) = Some bl"
  shows "fst (prepare h pf p s) = Inr ()"
proof -
  define s1' where "s1' = showTypingOverlay h (hideLoadingOverlay h (delay h 1000 s1))"
  obtain s2 where ty: "typeSynthIDQuery h (Some el) s1' = (Inr (), s2)"
    using typeSynthIDQuery_quiet [of h el s1'] by (cases "typeSynthIDQuery h (Some el) s1'") auto
  define s2' where "s2' = showUploadingOverlay h (hideTypingOverlay h (delay h 500 s2))"
  obtain r3 s3 where fe: "fetchImage h pf (imageUrl p) s2' = (r3, s3)"
    by (cases "fetchImage h pf (imageUrl p) s2'")
  have r3: "r3 = Inr bl"
    using fetchImage_result [of h pf "imageUrl p" s2'] fe bg by simp
  show ?thesis
    using r ty fe r3
    by (simp add: prepare_def s1'_def [symmetric] s2'_def [symmetric] Let_def
        split: prod.splits)
qed


lemma poll_once_chat:
  "poll_once ready_dom = Some 11" "poll_once sendless_dom = Some 11"
proof -
  have q: "querySelectorAll (chat_dom (0 # 11 # rs)) editable_selector
      = 11 # querySelectorAll (chat_dom rs) editable_selector" for rs
    by (simp add: querySelectorAll_def chat_dom_def chat_node_def
        editable_selector_def editable_div_def plain_element_def)
  have su: "suitable (node (chat_dom rs) 11)" for rs
    by (simp add: suitable_def chat_dom_def chat_node_def editable_div_def)
  have "poll_once (chat_dom (0 # 11 # rs)) = Some 11" for rs
    by (simp add: poll_once_def q su)
  then show "poll_once ready_dom = Some 11" "poll_once sendless_dom = Some 11"
    by (simp_all add: ready_dom_def sendless_dom_def)
qed

lemma blocked_both_ways:
  "via_background blocked_platform cat_url = None" "via_page blocked_platform cat_url = None"
  by (simp_all add: via_background_def via_page_def blocked_platform_def
      fetchImageAsDataUrl_def ok_def)

lemma open_background: "via_background open_platform cat_url = Some cat_blob"
  by (simp add: via_background_def open_platform_def fetchImageAsDataUrl_def ok_def)

lemma getPendingImage_one_pending:
  "lastError pf GET_PENDING_IMAGE = None \<Longrightarrow>
   fst (getPendingImage h pf (start t (one_pending t'))) = Some (cat_check t')"
  by (simp add: getPendingImage_def start_def one_pending_def Let_def)

lemma getPendingImage_now_static:
  "now (snd (getPendingImage (static_host d) pf s)) = now s"
  by (simp add: getPendingImage_def Let_def split: option.splits prod.splits response.splits)

lemma no_send_control_sendless: "no_send_control sendless_dom"
proof -
  have b: "querySelectorAll sendless_dom ''button'' = []"
    by (simp add: querySelectorAll_def sendless_dom_def chat_dom_def chat_node_def
        editable_div_def plain_element_def dropdown_selector_def file_selector_def)
  have c: "querySelector sendless_dom send_selector = None"
    by (simp add: querySelector_def querySelectorAll_def sendless_dom_def chat_dom_def
        chat_node_def editable_div_def plain_element_def dropdown_selector_def file_selector_def
        send_selector_def)
  show ?thesis
    by (simp add: no_send_control_def b c split: option.splits)
qed


section \<open>The claims\<close>

text \<open>
  C1, as amended. Let a fresh record be picked up and let both ways to the image fail.
  Where the input area is found, the only outcome the run reports is
  \<^verbatim>\<open>CHECK_ERROR\<close> with the message that the image could not be downloaded; by then
  the query has been typed into the input area in full, since the code types before it
  fetches, and no node but the input area has been clicked. Where the input area is not
  found in time, the outcome is \<^verbatim>\<open>CHECK_ERROR\<close> with the timeout message, and nothing
  has been typed or clicked. In both cases no upload strategy is attempted.
\<close>

theorem fetch_failure_after_typing:
  assumes "getPendingImage h pf s = (Some p, s1)"
    and "\<not> now s1 - timestamp p > 30000"
    and "via_background pf (imageUrl p) = None"
    and "via_page pf (imageUrl p) = None"
  shows "(\<forall>el. fst (waitForGeminiReady h (showLoadingOverlay h s1)) = Inr el \<longrightarrow>
            filter is_outcome (since s (main h pf s)) = [SendMessage (CHECK_ERROR download_message)]
            \<and> set (clicks (since s (main h pf s))) \<subseteq> {el}
            \<and> inserted (since s (main h pf s)) = query_text)
       \<and> (\<forall>e. fst (waitForGeminiReady h (showLoadingOverlay h s1)) = Inl e \<longrightarrow>
            filter is_outcome (since s (main h pf s)) = [SendMessage (CHECK_ERROR timeout_message)]
            \<and> clicks (since s (main h pf s)) = []
            \<and> inserted (since s (main h pf s)) = [])
       \<and> attempts (since s (main h pf s)) = []"
  using assms by (rule main_download_failure)

theorem fetch_failure_after_typing_witness:
  "fst (getPendingImage (static_host ready_dom) blocked_platform (start 1000 (one_pending 0)))
     = Some (cat_check 0)
   \<and> \<not> now (snd (getPendingImage (static_host ready_dom) blocked_platform (start 1000 (one_pending 0))))
         - timestamp (cat_check 0) > 30000
   \<and> via_background blocked_platform (imageUrl (cat_check 0)) = None
   \<and> via_page blocked_platform (imageUrl (cat_check 0)) = None
   \<and> filter is_outcome (since (start 1000 (one_pending 0))
        (main (static_host ready_dom) blocked_platform (start 1000 (one_pending 0))))
       = [SendMessage (CHECK_ERROR download_message)]
   \<and> set (clicks (since (start 1000 (one_pending 0))
        (main (static_host ready_dom) blocked_platform (start 1000 (one_pending 0))))) \<subseteq> {11}
   \<and> attempts (since (start 1000 (one_pending 0))
        (main (static_host ready_dom) blocked_platform (start 1000 (one_pending 0)))) = []"
proof -
  define h where "h = static_host ready_dom"
  define s where "s = start 1000 (one_pending 0)"
  obtain s1 where g: "getPendingImage h blocked_platform s = (Some (cat_check 0), s1)"
    using getPendingImage_one_pending [of blocked_platform h 1000 0]
    by (cases "getPendingImage h blocked_platform s") (simp add: s_def blocked_platform_def)
  have s1: "snd (getPendingImage h blocked_platform s) = s1"
    using g by simp
  have "now s1 = now s"
    using getPendingImage_now_static [of ready_dom blocked_platform s] by (simp add: h_def [symmetric] s1)
  then have f: "\<not> now s1 - timestamp (cat_check 0) > 30000"
    by (simp add: s_def start_def cat_check_def)
  have u: "imageUrl (cat_check 0) = cat_url"
    by (simp add: cat_check_def)
  have r: "fst (waitForGeminiReady h (showLoadingOverlay h s1)) = Inr 11"
    by (simp add: h_def ready_static [OF poll_once_chat(1)])
  show ?thesis
    using fetch_failure_after_typing [of h blocked_platform s "cat_check 0" s1, OF g f]
      g f r blocked_both_ways
    by (simp add: u h_def [symmetric] s_def [symmetric])
qed

text \<open>
  The claim as it was stated, that nothing is typed into the input area before the fetch
  failure ends the run, fails on the chat page with a platform that blocks both ways: the
  run reports the download error, and has typed the whole query.
\<close>

theorem typing_precedes_fetch_failure:
  "via_background blocked_platform cat_url = None
   \<and> via_page blocked_platform cat_url = None
   \<and> filter is_outcome (since (start 1000 (one_pending 0))
        (main (static_host ready_dom) blocked_platform (start 1000 (one_pending 0))))
       = [SendMessage (CHECK_ERROR download_message)]
   \<and> inserted (since (start 1000 (one_pending 0))
        (main (static_host ready_dom) blocked_platform (start 1000 (one_pending 0))))
       = ''@synthid is this image real?''"
proof -
  define h where "h = static_host ready_dom"
  define s where "s = start 1000 (one_pending 0)"
  obtain s1 where g: "getPendingImage h blocked_platform s = (Some (cat_check 0), s1)"
    using getPendingImage_one_pending [of blocked_platform h 1000 0]
    by (cases "getPendingImage h blocked_platform s") (simp add: s_def blocked_platform_def)
  have s1: "snd (getPendingImage h blocked_platform s) = s1"
    using g by simp
  have "now s1 = now s"
    using getPendingImage_now_static [of ready_dom blocked_platform s] by (simp add: h_def [symmetric] s1)
  then have f: "\<not> now s1 - timestamp (cat_check 0) > 30000"
    by (simp add: s_def start_def cat_check_def)
  have u: "imageUrl (cat_check 0) = cat_url"
    by (simp add: cat_check_def)
  have r: "fst (waitForGeminiReady h (showLoadingOverlay h s1)) = Inr 11"
    by (simp add: h_def ready_static [OF poll_once_chat(1)])
  show ?thesis
    using main_download_failure [of h blocked_platform s "cat_check 0" s1, OF g f]
      r blocked_both_ways
    by (simp add: u h_def [symmetric] s_def [symmetric] query_text_def)
qed


text \<open>
  C2. Where the record picked up is older than 30 000 ms when it is picked up, the run
  consists of the pickup request and one log line: no overlay, no polling, no typing, no
  upload, no send, and neither \<^verbatim>\<open>CHECK_COMPLETE\<close> nor \<^verbatim>\<open>CHECK_ERROR\<close>; the
  page is in the state in which the pickup left it.
\<close>

theorem stale_pending_ignored:
  assumes "fst (getPendingImage h pf s) = Some p"
    and "now (snd (getPendingImage h pf s)) - timestamp p > 30000"
  shows "since s (main h pf s) =
           [SendMessage GET_PENDING_IMAGE, Log ''Pending image is too old, ignoring'' []]
         \<and> world (main h pf s) = world (snd (getPendingImage h pf s))
         \<and> world (snd (getPendingImage h pf s)) = react h (SendMessage GET_PENDING_IMAGE) (world s)"
proof -
  obtain s1 where g: "getPendingImage h pf s = (Some p, s1)"
    using assms(1) by (cases "getPendingImage h pf s") auto
  have t: "trace s1 = trace s @ [SendMessage GET_PENDING_IMAGE]"
    and w: "world s1 = react h (SendMessage GET_PENDING_IMAGE) (world s)"
    using g by (auto simp: getPendingImage_def Let_def split: option.splits prod.splits response.splits)
  have m: "main h pf s = console_log ''Pending image is too old, ignoring'' [] s1"
    using g assms(2) by (simp add: main_def)
  show ?thesis
    using g t w by (simp add: m since_eq)
qed

theorem stale_pending_ignored_witness:
  "fst (getPendingImage (static_host empty_dom) open_platform (start 40000 (one_pending 5)))
     = Some (cat_check 5)
   \<and> now (snd (getPendingImage (static_host empty_dom) open_platform
             (start 40000 (one_pending 5)))) - timestamp (cat_check 5) > 30000
   \<and> since (start 40000 (one_pending 5))
        (main (static_host empty_dom) open_platform (start 40000 (one_pending 5)))
       = [SendMessage GET_PENDING_IMAGE, Log ''Pending image is too old, ignoring'' []]"
proof -
  have a: "fst (getPendingImage (static_host empty_dom) open_platform (start 40000 (one_pending 5)))
     = Some (cat_check 5)"
    by (simp add: getPendingImage_def open_platform_def start_def one_pending_def Let_def)
  have b: "now (snd (getPendingImage (static_host empty_dom) open_platform
             (start 40000 (one_pending 5)))) - timestamp (cat_check 5) > 30000"
    by (simp add: getPendingImage_now_static start_def cat_check_def)
  show ?thesis
    using a b stale_pending_ignored [OF a b] by simp
qed


text \<open>
  C3. \<^verbatim>\<open>waitForGeminiReady\<close> looks for the input area after its first waits, of
  2 000 ms at least, and then again after each delay of 500 ms. The first round that finds
  an element, less than 30 000 ms after the start, returns that element. Where no round
  within the 30 000 ms finds one, the function throws the timeout error at the first round
  past that bound, after logging the URL, the \<^verbatim>\<open>contenteditable\<close> elements and
  the length of the body.
\<close>

theorem waitForGeminiReady_polls_until_timeout:
  "(now (polls h k (awaitDocument h s)) - now s < MAX_WAIT_TIME
      \<and> poll_once (page h (polls h k (awaitDocument h s))) = Some el
      \<and> (\<forall>j<k. poll_once (page h (polls h j (awaitDocument h s))) = None)
    \<longrightarrow> waitForGeminiReady h s = (Inr el, polls h k (awaitDocument h s)))
   \<and> ((\<forall>i. now (polls h i (awaitDocument h s)) - now s < MAX_WAIT_TIME
            \<longrightarrow> poll_once (page h (polls h i (awaitDocument h s))) = None)
    \<longrightarrow> (\<exists>n. waitForGeminiReady h s =
               (Inl (Error timeout_message), with_diagnostics h (polls h n (awaitDocument h s)))
             \<and> MAX_WAIT_TIME \<le> now (polls h n (awaitDocument h s)) - now s
             \<and> (\<forall>j<n. now (polls h j (awaitDocument h s)) - now s < MAX_WAIT_TIME)))
   \<and> now (awaitDocument h s) + 500 * int k \<le> now (polls h k (awaitDocument h s))
   \<and> 2000 \<le> now (awaitDocument h s) - now s
   \<and> since (awaitDocument h s) (polls h k (awaitDocument h s)) = replicate k (Delay 500)
   \<and> since (polls h k (awaitDocument h s)) (with_diagnostics h (polls h k (awaitDocument h s)))
       = [Log ''TIMEOUT - Debug info:'' [],
          Log ''- URL:'' [Str (href (page h (polls h k (awaitDocument h s))))],
          Log ''- contenteditable elements:''
            [Refs (querySelectorAll (page h (polls h k (awaitDocument h s))) ''[contenteditable]'')],
          Log ''- body innerHTML length:''
            [Num (int (length (innerHTML (node (page h (polls h k (awaitDocument h s)))
                (body (page h (polls h k (awaitDocument h s))))))))]]"
proof -
  have a: "now (polls h k (awaitDocument h s)) - now s < MAX_WAIT_TIME
      \<and> poll_once (page h (polls h k (awaitDocument h s))) = Some el
      \<and> (\<forall>j<k. poll_once (page h (polls h j (awaitDocument h s))) = None)
    \<longrightarrow> waitForGeminiReady h s = (Inr el, polls h k (awaitDocument h s))"
    using poll_loop_found [of h k "awaitDocument h s" "now s" el]
    by (simp add: waitForGeminiReady_def)
  have b: "(\<forall>i. now (polls h i (awaitDocument h s)) - now s < MAX_WAIT_TIME
            \<longrightarrow> poll_once (page h (polls h i (awaitDocument h s))) = None)
    \<longrightarrow> (\<exists>n. waitForGeminiReady h s =
               (Inl (Error timeout_message), with_diagnostics h (polls h n (awaitDocument h s)))
             \<and> MAX_WAIT_TIME \<le> now (polls h n (awaitDocument h s)) - now s
             \<and> (\<forall>j<n. now (polls h j (awaitDocument h s)) - now s < MAX_WAIT_TIME))"
    using poll_loop_timeout [of h "awaitDocument h s" "now s"]
    by (simp add: waitForGeminiReady_def)
  have c: "now (awaitDocument h s) + 500 * int k \<le> now (polls h k (awaitDocument h s))"
    by (rule now_polls)
  have c': "2000 \<le> now (awaitDocument h s) - now s"
    by (rule awaitDocument_now)
  have d: "since (awaitDocument h s) (polls h k (awaitDocument h s)) = replicate k (Delay 500)"
    by (simp add: since_eq trace_polls)
  have e: "since (polls h k (awaitDocument h s)) (with_diagnostics h (polls h k (awaitDocument h s)))
       = timeout_diagnostics (page h (polls h k (awaitDocument h s)))"
    by (simp add: since_eq with_diagnostics_def)
  show ?thesis
    using a b c c' d e unfolding timeout_diagnostics_def by blast
qed

theorem waitForGeminiReady_polls_until_timeout_witness:
  "waitForGeminiReady (static_host ready_dom) (start 0 Map.empty)
     = (Inr 11, awaitDocument (static_host ready_dom) (start 0 Map.empty))
   \<and> (\<exists>n. waitForGeminiReady (static_host empty_dom) (start 0 Map.empty) =
          (Inl (Error timeout_message),
           with_diagnostics (static_host empty_dom)
             (polls (static_host empty_dom) n (awaitDocument (static_host empty_dom) (start 0 Map.empty))))
        \<and> 30000 \<le> now (polls (static_host empty_dom) n
                          (awaitDocument (static_host empty_dom) (start 0 Map.empty))))"
proof -
  have q: "querySelectorAll ready_dom editable_selector = [11]"
    by (simp add: querySelectorAll_def ready_dom_def chat_dom_def chat_node_def
        editable_selector_def editable_div_def plain_element_def dropdown_selector_def)
  have su: "suitable (node ready_dom 11)"
    by (simp add: suitable_def ready_dom_def chat_dom_def chat_node_def editable_div_def)
  have p: "poll_once ready_dom = Some 11"
    by (simp add: poll_once_def q su)
  have n: "now (awaitDocument (static_host ready_dom) (start 0 Map.empty)) = 2000"
    by (simp add: awaitDocument_def ready_dom_def chat_dom_def start_def)
  have e: "poll_once empty_dom = None"
    by (simp add: poll_once_def querySelectorAll_def querySelector_def findInputArea_def
        inputSelectors_def empty_dom_def plain_element_def)
  have s0: "now (start 0 Map.empty :: unit run) = 0"
    by (simp add: start_def)
  show ?thesis
    using waitForGeminiReady_polls_until_timeout [where h = "static_host ready_dom" and k = 0
        and s = "start 0 Map.empty" and el = 11]
      waitForGeminiReady_polls_until_timeout [where h = "static_host empty_dom" and k = 0
        and s = "start 0 Map.empty" and el = 11]
    by (simp add: p n e s0 MAX_WAIT_TIME_def, blast)
qed







text \<open>
  C6. \<^verbatim>\<open>typeSynthIDQuery\<close> on an input area returns normally. Up to the settle after
  the first Tab it sends one key, that Tab; the retry sends no key where the check for the
  committed form succeeds then, and one more Tab where it fails; so the keys of the whole
  function are one Tab or two, never more; and whatever the checks gave, the function ends
  by typing the question.
\<close>

theorem mention_commit_retries_once:
  "fst (typeSynthIDQuery h (Some el) s) = Inr ()
   \<and> filter is_keydown (since s (mention_entry h el s)) = [Dispatch el (KeyDown ''Tab'')]
   \<and> filter is_keydown (since (mention_entry h el s) (mention_retry h el (mention_entry h el s)))
       = (if checkForSynthIdTag (node (page h (mention_entry h el s)) el) then []
          else [Dispatch el (KeyDown ''Tab'')])
   \<and> filter is_keydown (since s (snd (typeSynthIDQuery h (Some el) s)))
       = (if checkForSynthIdTag (node (page h (mention_entry h el s)) el)
          then [Dispatch el (KeyDown ''Tab'')]
          else [Dispatch el (KeyDown ''Tab''), Dispatch el (KeyDown ''Tab'')])
   \<and> since (mention_retry h el (mention_entry h el s)) (snd (typeSynthIDQuery h (Some el) s))
       = typed el '' is this image real?''"
proof -
  obtain es1 where e1: "trace (mention_entry h el s) = trace s @ es1"
      "filter is_keydown es1 = [Dispatch el (KeyDown ''Tab'')]"
    using trace_mention_entry by blast
  obtain es2 where e2:
      "trace (mention_retry h el (mention_entry h el s)) = trace (mention_entry h el s) @ es2"
      "filter is_keydown es2 =
            (if checkForSynthIdTag (node (page h (mention_entry h el s)) el) then []
             else [Dispatch el (KeyDown ''Tab'')])"
    using trace_mention_retry by blast
  have r: "typeSynthIDQuery h (Some el) s =
      (Inr (), simulateTyping h el question (mention_retry h el (mention_entry h el s)))"
    by (simp add: typeSynthIDQuery_def)
  have a: "since s (mention_entry h el s) = es1"
    using e1(1) by (rule since_eq)
  have b: "since (mention_entry h el s) (mention_retry h el (mention_entry h el s)) = es2"
    using e2(1) by (rule since_eq)
  have c: "since s (snd (typeSynthIDQuery h (Some el) s)) = es1 @ es2 @ typed el question"
    by (rule since_eq) (simp add: r e1(1) e2(1))
  have d: "since (mention_retry h el (mention_entry h el s)) (snd (typeSynthIDQuery h (Some el) s))
       = typed el question"
    by (rule since_eq) (simp add: r)
  show ?thesis
    using r a b c d e1(2) e2(2) by (simp add: question_def)
qed

theorem mention_commit_retries_once_witness:
  "filter is_keydown
     (since mention_start (snd (typeSynthIDQuery mention_host (Some 11) mention_start)))
     = [Dispatch 11 (KeyDown ''Tab'')]
   \<and> filter is_keydown
     (since (start 0 Map.empty)
        (snd (typeSynthIDQuery (static_host ready_dom) (Some 11) (start 0 Map.empty))))
     = [Dispatch 11 (KeyDown ''Tab''), Dispatch 11 (KeyDown ''Tab'')]"
  using mention_commit_retries_once [of mention_host 11 mention_start]
    mention_commit_retries_once [of "static_host ready_dom" 11 "start 0 Map.empty"]
  by (simp add: tag_after_tab no_tag_static)


text \<open>
  C7. \<^verbatim>\<open>clickSendButton\<close> returns false exactly where no heuristic matches, and
  then does nothing but log. Where a run reaches the send step and no heuristic matches
  there, it ends with that log line, the manual-send prompt and
  \<^verbatim>\<open>CHECK_COMPLETE\<close> with success true: that message is the only outcome the run
  reports, and the manual-send prompt the only final overlay it shows (no completion
  animation, no error).
\<close>

theorem send_miss_still_completes:
  assumes "getPendingImage h pf s = (Some p, s1)"
    and "\<not> now s1 - timestamp p > 30000"
    and "prepare h pf p (showLoadingOverlay h s1) = (Inr (), s2)"
    and "no_send_control (page h s2)"
  shows "clickSendButton h s2 = (False, console_log send_not_found [] s2)
       \<and> since s2 (main h pf s) =
           [Log send_not_found [], RemoveAllOverlays, RemoveAllOverlays, Show ManualSend,
            SendMessage (CHECK_COMPLETE True)]
       \<and> filter is_outcome (since s (main h pf s)) = [SendMessage (CHECK_COMPLETE True)]
       \<and> filter is_final_overlay (since s (main h pf s)) = [Show ManualSend]
       \<and> fst (clickSendButton h s') = (\<not> no_send_control (page h s'))"
  using main_send_miss [OF assms] clickSendButton_miss [of h s'] by simp

theorem send_miss_still_completes_witness:
  "fst (getPendingImage (static_host sendless_dom) open_platform (start 1000 (one_pending 0)))
     = Some (cat_check 0)
   \<and> \<not> now (snd (getPendingImage (static_host sendless_dom) open_platform (start 1000 (one_pending 0))))
         - timestamp (cat_check 0) > 30000
   \<and> fst (prepare (static_host sendless_dom) open_platform (cat_check 0)
        (showLoadingOverlay (static_host sendless_dom)
          (snd (getPendingImage (static_host sendless_dom) open_platform
             (start 1000 (one_pending 0)))))) = Inr ()
   \<and> no_send_control sendless_dom
   \<and> filter is_outcome (since (start 1000 (one_pending 0))
        (main (static_host sendless_dom) open_platform (start 1000 (one_pending 0))))
       = [SendMessage (CHECK_COMPLETE True)]
   \<and> filter is_final_overlay (since (start 1000 (one_pending 0))
        (main (static_host sendless_dom) open_platform (start 1000 (one_pending 0))))
       = [Show ManualSend]"
proof -
  define h where "h = static_host sendless_dom"
  define s where "s = start 1000 (one_pending 0)"
  obtain s1 where g: "getPendingImage h open_platform s = (Some (cat_check 0), s1)"
    using getPendingImage_one_pending [of open_platform h 1000 0]
    by (cases "getPendingImage h open_platform s") (simp add: s_def open_platform_def)
  have s1: "snd (getPendingImage h open_platform s) = s1"
    using g by simp
  have "now s1 = now s"
    using getPendingImage_now_static [of sendless_dom open_platform s] by (simp add: h_def [symmetric] s1)
  then have f: "\<not> now s1 - timestamp (cat_check 0) > 30000"
    by (simp add: s_def start_def cat_check_def)
  have u: "imageUrl (cat_check 0) = cat_url"
    by (simp add: cat_check_def)
  have r: "waitForGeminiReady h (showLoadingOverlay h s1)
      = (Inr 11, awaitDocument h (showLoadingOverlay h s1))"
    by (simp add: h_def ready_static [OF poll_once_chat(2)])
  have ok: "fst (prepare h open_platform (cat_check 0) (showLoadingOverlay h s1)) = Inr ()"
    using r by (rule prepare_ok) (simp add: u open_background)
  obtain s2 where p: "prepare h open_platform (cat_check 0) (showLoadingOverlay h s1) = (Inr (), s2)"
    using ok by (cases "prepare h open_platform (cat_check 0) (showLoadingOverlay h s1)") simp
  have n: "no_send_control (page h s2)"
    by (simp add: h_def no_send_control_sendless)
  show ?thesis
    using send_miss_still_completes [OF g f p n] g f ok no_send_control_sendless
    by (simp add: h_def [symmetric] s_def [symmetric] s1)
qed


text \<open>
  C8. The claim that every element found for the input area is larger than 100 by 20, on
  the selector path as on the scan, evaluated on a page whose only editable node is 50 by
  10: the scan, whose results are all of that size, rejects the node, and
  \<^verbatim>\<open>waitForGeminiReady\<close> returns it all the same, through
  \<^verbatim>\<open>findInputArea\<close>, which tests no size.
\<close>

theorem selector_fallback_skips_size_check:
  "fst (waitForGeminiReady (static_host tiny_dom) (start 0 Map.empty)) = Inr 11
   \<and> \<not> suitable (node tiny_dom 11)
   \<and> find (\<lambda>r. suitable (node tiny_dom r)) (querySelectorAll tiny_dom editable_selector) = None"
proof -
  have q: "querySelectorAll tiny_dom editable_selector = [11]"
    by (simp add: querySelectorAll_def tiny_dom_def editable_selector_def editable_div_def
        plain_element_def)
  have ns: "\<not> suitable (node tiny_dom 11)"
    by (simp add: suitable_def tiny_dom_def editable_div_def)
  have f: "findInputArea tiny_dom = Some 11"
    by (simp add: findInputArea_def inputSelectors_def querySelector_def querySelectorAll_def
        tiny_dom_def editable_div_def plain_element_def)
  have p: "poll_once tiny_dom = Some 11"
    by (simp add: poll_once_def q ns f)
  have r: "readyState tiny_dom = ''complete''"
    by (simp add: tiny_dom_def)
  have "fst (waitForGeminiReady (static_host tiny_dom) (start 0 Map.empty)) = Inr 11"
    by (simp add: waitForGeminiReady_def awaitDocument_def poll_loop.simps p r start_def
        MAX_WAIT_TIME_def)
  then show ?thesis using ns q by simp
qed


text \<open>
  C9. The handler of \<^verbatim>\<open>GET_PENDING_IMAGE\<close> reads the record, responds and only then
  issues the removal. Where a second request arrives before the read of the first is
  served, both requests are answered with the record that the context menu stored: the
  handoff is not single-shot. The record is gone once both removals are served. Where the
  second request arrives after the removal of the first is served, it is answered with
  no record.
\<close>

theorem overlapping_pickups_both_observe:
  "onClicked (Some cat_url) 7 5 Map.empty = one_pending 5
   \<and> responses (schedule [Arrives 1, Arrives 2, Serves, Serves, Serves, Serves]
         (idle (one_pending 5)))
       = [(1, Some (cat_check 5)), (2, Some (cat_check 5))]
   \<and> responses (schedule [Arrives 1, Serves, Serves, Arrives 2, Serves] (idle (one_pending 5)))
       = [(1, Some (cat_check 5)), (2, None)]
   \<and> held (schedule [Arrives 1, Arrives 2, Serves, Serves, Serves, Serves]
         (idle (one_pending 5))) pending_key = None
   \<and> issued (schedule [Arrives 1, Arrives 2, Serves, Serves, Serves, Serves]
         (idle (one_pending 5))) = []"
  by (simp add: schedule_def idle_def Let_def one_pending_def onClicked_def isValidWebUrl_def
      cat_url_def cat_check_def)

text \<open>
  C10. For every string \<^verbatim>\<open>getFileNameFromUrl\<close> returns a name that is not empty:
  the last segment of the path where the URL parses and that segment is not empty and has
  a dot, \<^verbatim>\<open>image.png\<close> otherwise; the file built for the upload bears that name.
\<close>

theorem getFileNameFromUrl_named:
  "getFileNameFromUrl pf url \<noteq> []
   \<and> getFileNameFromUrl pf url =
       (case parseURL pf url of
          None \<Rightarrow> ''image.png''
        | Some u \<Rightarrow>
            if last_segment (pathname u) \<noteq> [] \<and> CHR ''.'' \<in> set (last_segment (pathname u))
            then last_segment (pathname u) else ''image.png'')
   \<and> file_name (make_file pf b url) = getFileNameFromUrl pf url
   \<and> file_name (make_file pf b url) \<noteq> []"
proof -
  have eq: "getFileNameFromUrl pf url =
       (case parseURL pf url of
          None \<Rightarrow> ''image.png''
        | Some u \<Rightarrow>
            if last_segment (pathname u) \<noteq> [] \<and> CHR ''.'' \<in> set (last_segment (pathname u))
            then last_segment (pathname u) else ''image.png'')"
    by (rule getFileNameFromUrl_eq)
  have ne: "getFileNameFromUrl pf url \<noteq> []"
    unfolding eq by (simp split: option.splits)
  have f: "file_name (make_file pf b url) = getFileNameFromUrl pf url"
    using ne by (simp add: make_file_def Let_def)
  show ?thesis using eq ne f by simp
qed

theorem getFileNameFromUrl_named_witness:
  "getFileNameFromUrl open_platform cat_url = ''cat.png''
   \<and> file_name (make_file open_platform cat_blob cat_url) = ''cat.png''
   \<and> getFileNameFromUrl open_platform ''not a url'' = ''image.png''
   \<and> file_name (make_file open_platform cat_blob ''not a url'') = ''image.png''"
  using getFileNameFromUrl_named [of open_platform cat_url cat_blob]
    getFileNameFromUrl_named [of open_platform "''not a url''" cat_blob]
  by (simp add: open_platform_def cat_url_def last_segment_def)


end
